theory Spec2Isabelle
  imports Main "HOL-Library.Word"
begin

unbundle bit_operations_syntax

section \<open>Bytes, slices and big-endian integers\<close>

type_synonym byte = "8 word"

text \<open>
  A Go byte slice is a list of bytes. \<open>make([]byte, n)\<close> is \<open>n\<close> zero bytes, and
  \<open>copy(dst, src)\<close> overwrites the first \<open>min (len dst) (len src)\<close> bytes of \<open>dst\<close>
  and leaves the rest of \<open>dst\<close> as it was.
\<close>

definition make_bytes :: "nat \<Rightarrow> byte list" where
  "make_bytes n = replicate n 0"

definition copy_bytes :: "byte list \<Rightarrow> byte list \<Rightarrow> byte list" where
  "copy_bytes dst src = take (length dst) src @ drop (length src) dst"

text \<open>\<open>binary.BigEndian\<close>: the most significant byte first.\<close>

definition PutUint16 :: "16 word \<Rightarrow> byte list" where
  "PutUint16 v = [ucast (drop_bit 8 v), ucast v]"

definition Uint16 :: "byte list \<Rightarrow> 16 word" where
  "Uint16 b = (ucast (b ! 1)) OR push_bit 8 (ucast (b ! 0))"

definition PutUint32 :: "32 word \<Rightarrow> byte list" where
  "PutUint32 v = [ucast (drop_bit 24 v), ucast (drop_bit 16 v), ucast (drop_bit 8 v), ucast v]"

definition Uint32 :: "byte list \<Rightarrow> 32 word" where
  "Uint32 b = (ucast (b ! 3)) OR push_bit 8 (ucast (b ! 2)) OR push_bit 16 (ucast (b ! 1))
     OR push_bit 24 (ucast (b ! 0))"

definition PutUint64 :: "64 word \<Rightarrow> byte list" where
  "PutUint64 v = [ucast (drop_bit 56 v), ucast (drop_bit 48 v), ucast (drop_bit 40 v),
     ucast (drop_bit 32 v), ucast (drop_bit 24 v), ucast (drop_bit 16 v),
     ucast (drop_bit 8 v), ucast v]"

definition Uint64 :: "byte list \<Rightarrow> 64 word" where
  "Uint64 b = (ucast (b ! 7)) OR push_bit 8 (ucast (b ! 6)) OR push_bit 16 (ucast (b ! 5))
     OR push_bit 24 (ucast (b ! 4)) OR push_bit 32 (ucast (b ! 3)) OR push_bit 40 (ucast (b ! 2))
     OR push_bit 48 (ucast (b ! 1)) OR push_bit 56 (ucast (b ! 0))"

section \<open>Packet framing (pkg/protocol/protocol.go)\<close>

definition MagicByte1 :: byte where "MagicByte1 = 0x48"
definition MagicByte2 :: byte where "MagicByte2 = 0x56"
definition ProtocolVersion :: byte where "ProtocolVersion = 1"
definition HeaderSize :: nat where "HeaderSize = 14"

definition PacketTypeHandshakeInit :: byte where "PacketTypeHandshakeInit = 0x01"
definition PacketTypeHandshakeResponse :: byte where "PacketTypeHandshakeResponse = 0x02"
definition PacketTypeData :: byte where "PacketTypeData = 0x03"
definition PacketTypeKeepAlive :: byte where "PacketTypeKeepAlive = 0x04"
definition PacketTypeDisconnect :: byte where "PacketTypeDisconnect = 0x05"

record PacketHeader =
  Magic :: "byte \<times> byte"
  Version :: byte
  Type :: byte
  SessionID :: "64 word"
  Length :: "16 word"

record Packet =
  Header :: PacketHeader
  Payload :: "byte list"

text \<open>
  Every error value and every runtime panic of the modelled code is a constructor: the
  four parse errors of \<open>UnmarshalPacket\<close>, a short read (\<open>io.ReadFull\<close> on a stream
  that ends early), a key of the wrong size for \<open>chacha20poly1305.NewX\<close>, the two errors
  of \<open>Session.Decrypt\<close>, the length check of the obfuscated reader, pool exhaustion, and
  the panics of an index or slice bound out of range and of an integer division by zero.
\<close>

datatype error =
    PacketTooShort
  | InvalidMagic
  | UnsupportedVersion
  | PayloadLengthMismatch
  | ShortRead
  | BadKeyLength
  | CiphertextTooShort
  | OpenFailed
  | InvalidPacketLength
  | PoolExhausted
  | IndexOutOfRange
  | DivideByZero

text \<open>\<open>NewPacket\<close>: the length field is \<open>uint16(len(payload))\<close>, a truncating conversion.\<close>

definition NewPacket :: "byte \<Rightarrow> 64 word \<Rightarrow> byte list \<Rightarrow> Packet"
  where
  "NewPacket packetType sessionID payload =
     \<lparr>Header = \<lparr>Magic = (MagicByte1, MagicByte2), Version = ProtocolVersion,
                 Type = packetType, SessionID = sessionID,
                 Length = of_nat (length payload)\<rparr>,
      Payload = payload\<rparr>"

text \<open>
  \<open>Marshal\<close> fills a buffer of \<open>HeaderSize + len(p.Payload)\<close> bytes: the fourteen header
  bytes, then the payload copied into the rest of the buffer.
\<close>

definition Marshal :: "Packet \<Rightarrow> byte list" where
  "Marshal p =
     [fst (Magic (Header p)), snd (Magic (Header p)), Version (Header p), Type (Header p)]
     @ PutUint64 (SessionID (Header p))
     @ PutUint16 (Length (Header p))
     @ copy_bytes (make_bytes (length (Payload p))) (Payload p)"

text \<open>
  \<open>UnmarshalPacket\<close> checks, in this order, the size, the magic bytes, the version and the
  length field; the type byte is stored unchecked. The comparison of the length field is
  made on Go's \<open>int\<close>, so it is written on \<open>int\<close> here too.
\<close>

definition UnmarshalPacket :: "byte list \<Rightarrow> error + Packet" where
  "UnmarshalPacket data =
     (if length data < HeaderSize then Inl PacketTooShort
      else if data ! 0 \<noteq> MagicByte1 \<or> data ! 1 \<noteq> MagicByte2 then Inl InvalidMagic
      else if data ! 2 \<noteq> ProtocolVersion then Inl UnsupportedVersion
      else
        let len = Uint16 (take 2 (drop 12 data)) in
        if uint len \<noteq> int (length data) - int HeaderSize then Inl PayloadLengthMismatch
        else Inr \<lparr>Header = \<lparr>Magic = (data ! 0, data ! 1), Version = data ! 2,
                              Type = data ! 3,
                              SessionID = Uint64 (take 8 (drop 4 data)),
                              Length = len\<rparr>,
                  Payload = copy_bytes (make_bytes (unat len)) (drop HeaderSize data)\<rparr>)"

definition IsValidPacketType :: "byte \<Rightarrow> bool" where
  "IsValidPacketType t \<longleftrightarrow>
     t = PacketTypeHandshakeInit \<or> t = PacketTypeHandshakeResponse \<or> t = PacketTypeData
     \<or> t = PacketTypeKeepAlive \<or> t = PacketTypeDisconnect"

section \<open>Session keys and the AEAD (pkg/crypto/crypto.go)\<close>

text \<open>
  The library primitives are parameters of the model: \<open>hkdf secret salt info\<close> is the
  output stream of \<open>hkdf.New(sha256.New, secret, salt, info)\<close>, \<open>seal c nonce plaintext\<close> is
  what \<open>c.Seal\<close> appends (ciphertext and tag) and \<open>aopen c nonce ciphertext\<close> is the result
  of \<open>c.Open\<close>, \<open>None\<close> when authentication fails. A cipher object is represented by the key
  it was created from. The random source is the list of bytes it will deliver;
  \<open>io.ReadFull\<close> takes the next \<open>n\<close> of them or fails on a source that ends early.
\<close>

type_synonym hkdf_fn = "byte list \<Rightarrow> byte list \<Rightarrow> byte list \<Rightarrow>
  byte list"
type_synonym seal_fn = "byte list \<Rightarrow> byte list \<Rightarrow> byte list \<Rightarrow>
  byte list"
type_synonym open_fn = "byte list \<Rightarrow> byte list \<Rightarrow> byte list \<Rightarrow>
  byte list option"

record Session =
  SendKey :: "byte list"
  RecvKey :: "byte list"
  SendNonce :: "64 word"
  RecvNonce :: "64 word"
  sendCipher :: "byte list"
  recvCipher :: "byte list"

definition ReadFull :: "byte list \<Rightarrow> nat \<Rightarrow> error + (byte list \<times> byte
  list)" where
  "ReadFull r n = (if n \<le> length r then Inr (take n r, drop n r) else Inl ShortRead)"

definition NewX :: "byte list \<Rightarrow> error + byte list" where
  "NewX k = (if length k = 32 then Inr k else Inl BadKeyLength)"

definition session_keys_info :: "byte list" where
  "session_keys_info = map (\<lambda>c. of_nat (of_char c)) ''hydravpn-session-keys''"

definition DeriveSessionKeys :: "hkdf_fn \<Rightarrow> byte list \<Rightarrow> bool \<Rightarrow>
  byte list \<Rightarrow> error + Session" where
  "DeriveSessionKeys hkdf sharedSecret isInitiator salt =
     (let hkdfReader = hkdf sharedSecret salt session_keys_info in
      case ReadFull hkdfReader 32 of
        Inl e \<Rightarrow> Inl e
      | Inr (key1, hkdfReader) \<Rightarrow>
          (case ReadFull hkdfReader 32 of
             Inl e \<Rightarrow> Inl e
           | Inr (key2, hkdfReader) \<Rightarrow>
               let session = \<lparr>SendKey = make_bytes 32, RecvKey = make_bytes 32,
                               SendNonce = 0, RecvNonce = 0,
                               sendCipher = [], recvCipher = []\<rparr>;
                   session = (if isInitiator
                              then session\<lparr>SendKey := key1, RecvKey := key2\<rparr>
                              else session\<lparr>SendKey := key2, RecvKey := key1\<rparr>)
               in case NewX (SendKey session) of
                    Inl e \<Rightarrow> Inl e
                  | Inr sc \<Rightarrow>
                      (case NewX (RecvKey session) of
                         Inl e \<Rightarrow> Inl e
                       | Inr rc \<Rightarrow> Inr (session\<lparr>sendCipher := sc, recvCipher :=
                         rc\<rparr>))))"

text \<open>\<open>binary.LittleEndian.PutUint64\<close>: the least significant byte first.\<close>

definition LittleEndian_PutUint64 :: "64 word \<Rightarrow> byte list" where
  "LittleEndian_PutUint64 v = [ucast v, ucast (drop_bit 8 v), ucast (drop_bit 16 v),
     ucast (drop_bit 24 v), ucast (drop_bit 32 v), ucast (drop_bit 40 v),
     ucast (drop_bit 48 v), ucast (drop_bit 56 v)]"

text \<open>
  \<open>Encrypt\<close> returns its result, the session as the call leaves it and the rest of the
  random source. The counter is incremented before the random bytes are read, so it
  advances on the error path too. \<open>Seal(nonce, nonce, plaintext, nil)\<close> appends to its
  first argument: the result starts with the nonce.
\<close>

definition Encrypt ::
  "seal_fn \<Rightarrow> Session \<Rightarrow> byte list \<Rightarrow> byte list \<Rightarrow>
    (error + byte list) \<times> Session \<times> byte list" where
  "Encrypt seal s rng plaintext =
     (let nonce = copy_bytes (make_bytes 24) (LittleEndian_PutUint64 (SendNonce s));
          s = s\<lparr>SendNonce := SendNonce s + 1\<rparr>
      in case ReadFull rng 16 of
           Inl e \<Rightarrow> (Inl e, s, rng)
         | Inr (r, rng) \<Rightarrow>
             let nonce = take 8 nonce @ copy_bytes (drop 8 nonce) r;
                 ciphertext = nonce @ seal (sendCipher s) nonce plaintext
             in (Inr ciphertext, s, rng))"

text \<open>
  A slice expression \<open>s[lo:hi]\<close> is safe when \<open>lo \<le> hi \<le> len(s)\<close> (Go lets \<open>hi\<close> go up
  to the capacity; the model checks the stricter bound). Outside it the model returns
  \<open>None\<close>, and \<open>Decrypt\<close> turns that into the \<open>IndexOutOfRange\<close> panic.
\<close>

definition slice :: "byte list \<Rightarrow> nat \<Rightarrow> nat \<Rightarrow> byte list option"
  where
  "slice s lo hi = (if lo \<le> hi \<and> hi \<le> length s then Some (take (hi - lo) (drop lo s))
    else None)"

definition Decrypt :: "open_fn \<Rightarrow> Session \<Rightarrow> byte list \<Rightarrow> (error
  + byte list) \<times> Session" where
  "Decrypt aopen s ciphertext =
     (if length ciphertext < 24 then (Inl CiphertextTooShort, s)
      else case slice ciphertext 0 24 of
             None \<Rightarrow> (Inl IndexOutOfRange, s)
           | Some nonce \<Rightarrow>
               (case slice ciphertext 24 (length ciphertext) of
                  None \<Rightarrow> (Inl IndexOutOfRange, s)
                | Some ciphertext \<Rightarrow>
                    (case aopen (recvCipher s) nonce ciphertext of
                       None \<Rightarrow> (Inl OpenFailed, s)
                     | Some plaintext \<Rightarrow> (Inr plaintext, s\<lparr>RecvNonce :=
                       RecvNonce s + 1\<rparr>))))"

definition GenerateRandomBytes :: "byte list \<Rightarrow> nat \<Rightarrow> (error + byte list)
  \<times> byte list" where
  "GenerateRandomBytes rng n =
     (case ReadFull rng n of Inl e \<Rightarrow> (Inl e, rng) | Inr (b, rng) \<Rightarrow> (Inr b,
       rng))"

section \<open>HKDF-SHA256, the function behind \<open>hkdf.New(sha256.New, \<dots>)\<close>\<close>

text \<open>
  The statements about key derivation hold for every HKDF function. To run the handshake
  at a concrete input, this section writes out the library function itself: SHA-256
  (FIPS 180-4), HMAC (RFC 2104) and HKDF (RFC 5869). Bytes and 32-bit words are integers
  here, with the reduction modulo \<open>2 ^ 32\<close> written out; \<open>rotr d x\<close> rotates the word
  \<open>x\<close> right by \<open>n\<close> bits for \<open>d = 2 ^ n\<close>. One round of the compression function works
  on the eight working variables and on the window of the sixteen current words of the
  message schedule. The definitions are checked below against the digest of \<open>abc\<close> and
  against test case 1 of RFC 5869.
\<close>

definition rotr :: "int \<Rightarrow> int \<Rightarrow> int" where
  "rotr d x = x div d + (x mod d) * (4294967296 div d)"
definition Ch :: "int \<Rightarrow> int \<Rightarrow> int \<Rightarrow> int" where
  "Ch x y z = (x AND y) XOR ((4294967295 - x) AND z)"
definition Maj :: "int \<Rightarrow> int \<Rightarrow> int \<Rightarrow> int" where
  "Maj x y z = (x AND y) XOR (x AND z) XOR (y AND z)"
definition Sigma0 :: "int \<Rightarrow> int" where
  "Sigma0 x = rotr 4 x XOR rotr 8192 x XOR rotr 4194304 x"
definition Sigma1 :: "int \<Rightarrow> int" where
  "Sigma1 x = rotr 64 x XOR rotr 2048 x XOR rotr 33554432 x"
definition sigma0 :: "int \<Rightarrow> int" where
  "sigma0 x = rotr 128 x XOR rotr 262144 x XOR x div 8"
definition sigma1 :: "int \<Rightarrow> int" where
  "sigma1 x = rotr 131072 x XOR rotr 524288 x XOR x div 1024"

text \<open>The round constants and the initial hash value, in decimal.\<close>

definition K256 :: "int list" where
  "K256 = [
  1116352408, 1899447441, 3049323471, 3921009573, 961987163, 1508970993, 2453635748, 2870763221,
  3624381080, 310598401, 607225278, 1426881987, 1925078388, 2162078206, 2614888103, 3248222580,
  3835390401, 4022224774, 264347078, 604807628, 770255983, 1249150122, 1555081692, 1996064986,
  2554220882, 2821834349, 2952996808, 3210313671, 3336571891, 3584528711, 113926993, 338241895,
  666307205, 773529912, 1294757372, 1396182291, 1695183700, 1986661051, 2177026350, 2456956037,
  2730485921, 2820302411, 3259730800, 3345764771, 3516065817, 3600352804, 4094571909, 275423344,
  430227734, 506948616, 659060556, 883997877, 958139571, 1322822218, 1537002063, 1747873779,
  1955562222, 2024104815, 2227730452, 2361852424, 2428436474, 2756734187, 3204031479, 3329325298]"

definition H256 :: "int list" where
  "H256 = [1779033703, 3144134277, 1013904242, 2773480762, 1359893119, 2600822924, 528734635,
    1541459225]"

fun be32 :: "int list \<Rightarrow> int list" where
  "be32 (a # b # c # d # r) = (((a * 256 + b) * 256 + c) * 256 + d) # be32 r"
| "be32 _ = []"

fun round256 :: "int list \<times> int list \<Rightarrow> int \<Rightarrow> int list \<times> int
  list" where
  "round256 ([a, b, c, d, e, f, g, h],
             [w0, w1, w2, w3, w4, w5, w6, w7, w8, w9, w10, w11, w12, w13, w14, w15]) k =
     (let t1 = (h + Sigma1 e + Ch e f g + k + w0) mod 4294967296;
          t2 = (Sigma0 a + Maj a b c) mod 4294967296
      in ([(t1 + t2) mod 4294967296, a, b, c, (d + t1) mod 4294967296, e, f, g],
          [w1, w2, w3, w4, w5, w6, w7, w8, w9, w10, w11, w12, w13, w14, w15,
           (sigma1 w14 + w9 + sigma0 w1 + w0) mod 4294967296]))"
| "round256 s k = s"

definition compress :: "int list \<Rightarrow> int list \<Rightarrow> int list" where
  "compress hs block =
     map2 (\<lambda>x y. (x + y) mod 4294967296) hs (fst (foldl round256 (hs, be32 block) K256))"

fun blocks :: "int list \<Rightarrow> int list \<Rightarrow> int list" where
  "blocks hs (b0 # m) = blocks (compress hs (take 64 (b0 # m))) (drop 64 (b0 # m))"
| "blocks hs [] = hs"

definition put64 :: "int \<Rightarrow> int list" where
  "put64 n = [n div 72057594037927936 mod 256, n div 281474976710656 mod 256,
     n div 1099511627776 mod 256, n div 4294967296 mod 256,
     n div 16777216 mod 256, n div 65536 mod 256, n div 256 mod 256, n mod 256]"

definition put32 :: "int \<Rightarrow> int list" where
  "put32 v = [v div 16777216 mod 256, v div 65536 mod 256, v div 256 mod 256, v mod 256]"

definition pad :: "int list \<Rightarrow> int list" where
  "pad m = m @ [128] @ replicate ((119 - length m mod 64) mod 64) 0 @ put64 (8 * int (length m))"

definition sha256 :: "int list \<Rightarrow> int list" where
  "sha256 m = concat (map put32 (blocks H256 (pad m)))"

text \<open>
  HMAC (RFC 2104) with a block of 64 bytes, and HKDF (RFC 5869): extract with the salt as
  HMAC key (a missing salt is 32 zero bytes), then expand into the blocks
  \<open>T(1), T(2), \<dots>, T(255)\<close>, each the HMAC of the previous block, the info and the block
  number under the extracted key. \<open>HKDF_SHA256\<close> is the whole stream the reader can deliver.
\<close>

definition hmac256 :: "int list \<Rightarrow> int list \<Rightarrow> int list" where
  "hmac256 k m =
     (let k = (if length k > 64 then sha256 k else k);
          k = k @ replicate (64 - length k) 0
      in sha256 (map (\<lambda>x. x XOR 0x5c) k @ sha256 (map (\<lambda>x. x XOR 0x36) k @ m)))"

fun hkdf_expand :: "nat \<Rightarrow> int list \<Rightarrow> int list \<Rightarrow> int list
  \<Rightarrow> int \<Rightarrow> int list" where
  "hkdf_expand 0 prk info prev i = []"
| "hkdf_expand (Suc n) prk info prev i =
     hmac256 prk (prev @ info @ [i]) @ hkdf_expand n prk info (hmac256 prk (prev @ info @ [i])) (i
       + 1)"

definition hkdf_extract :: "int list \<Rightarrow> int list \<Rightarrow> int list" where
  "hkdf_extract salt ikm = hmac256 (if salt = [] then replicate 32 0 else salt) ikm"

definition HKDF_SHA256 :: "byte list \<Rightarrow> byte list \<Rightarrow> byte list \<Rightarrow>
  byte list" where
  "HKDF_SHA256 secret salt info =
     map of_int (hkdf_expand 255 (hkdf_extract (map uint salt) (map uint secret)) (map uint info)
       [] 1)"

section \<open>Key derivation in the handshake (pkg/client/client.go, pkg/server/server.go)\<close>

text \<open>
  The client derives its keys as initiator with a salt of 32 zero bytes
  (\<open>performHandshake\<close>). The server derives its keys as responder with 32 bytes it has just
  drawn from its random source and sends to nobody (\<open>handleConnection\<close>); it ignores the
  error of \<open>GenerateRandomBytes\<close>, which leaves the salt \<open>nil\<close>.
\<close>

definition performHandshake_keys :: "hkdf_fn \<Rightarrow> byte list \<Rightarrow> error +
  Session" where
  "performHandshake_keys hkdf sharedSecret =
     (let salt = make_bytes 32 in DeriveSessionKeys hkdf sharedSecret True salt)"

definition handleConnection_keys :: "hkdf_fn \<Rightarrow> byte list \<Rightarrow> byte list
  \<Rightarrow> error + Session" where
  "handleConnection_keys hkdf rng sharedSecret =
     (let salt = (case fst (GenerateRandomBytes rng 32) of Inl e \<Rightarrow> [] | Inr b
       \<Rightarrow> b)
      in DeriveSessionKeys hkdf sharedSecret False salt)"

section \<open>The server's data loop (pkg/server/server.go, handleConnection)\<close>

record ClientSession =
  ID :: "64 word"
  CryptoSession :: Session
  AssignedIP :: "byte list"
  LastSeen :: int

text \<open>
  The state one connection's loop works on: the session record (its \<open>Conn\<close> field is
  represented by what has been written to it), and what the loop has written so far to
  the tunnel device and to the connection. One iteration takes the
  state of the context (\<open>ctxDone\<close>), whether the server has a tunnel device, the clock
  reading \<open>now\<close> that \<open>time.Now()\<close> would return and the outcome of \<open>conn.Read\<close>; it
  returns whether the loop goes on and the new state. An error of the tunnel write or of
  the keep-alive write is only logged, so it leaves no trace in the state.
\<close>

record loop_state =
  session :: ClientSession
  tun_written :: "byte list list"
  conn_written :: "byte list list"

datatype conn_read = ReadError | ReadOk "byte list"

datatype loop_ctl = Continue | Return

definition data_loop_iteration ::
  "open_fn \<Rightarrow> bool \<Rightarrow> bool \<Rightarrow> int \<Rightarrow> conn_read
    \<Rightarrow> loop_state \<Rightarrow> loop_ctl \<times> loop_state" where
  "data_loop_iteration aopen ctxDone hasTun now rd st =
     (if ctxDone then (Return, st)
      else case rd of
        ReadError \<Rightarrow> (Return, st)
      | ReadOk data \<Rightarrow>
          (case UnmarshalPacket data of
             Inl e \<Rightarrow> (Continue, st)
           | Inr packet \<Rightarrow>
               let st = st\<lparr>session := (session st)\<lparr>LastSeen := now\<rparr>\<rparr> in
               if Type (Header packet) = PacketTypeData then
                 (case Decrypt aopen (CryptoSession (session st)) (Payload packet) of
                    (Inl e, cs) \<Rightarrow> (Continue, st\<lparr>session := (session
                      st)\<lparr>CryptoSession := cs\<rparr>\<rparr>)
                  | (Inr plaintext, cs) \<Rightarrow>
                      let st = st\<lparr>session := (session st)\<lparr>CryptoSession :=
                        cs\<rparr>\<rparr> in
                      (Continue,
                       if hasTun then st\<lparr>tun_written := tun_written st @
                         [plaintext]\<rparr> else st))
               else if Type (Header packet) = PacketTypeKeepAlive then
                 (Continue,
                  st\<lparr>conn_written := conn_written st
                      @ [Marshal (NewPacket PacketTypeKeepAlive (ID (session st)) [])]\<rparr>)
               else if Type (Header packet) = PacketTypeDisconnect then (Return, st)
               else (Continue, st)))"

section \<open>The obfuscated connection (ObfuscatedConnection)\<close>

record ObfuscatedConnection =
  key :: "byte list"
  keyPos :: nat

text \<open>
  \<open>obfuscate\<close> XORs the data with the key from position \<open>keyPos\<close> on, stepping the position
  cyclically; it returns the data and the position it ends at. Indexing the key out of
  range is the \<open>IndexOutOfRange\<close> panic.
\<close>

fun obfuscate :: "byte list \<Rightarrow> byte list \<Rightarrow> nat \<Rightarrow> error + (byte
  list \<times> nat)" where
  "obfuscate [] k pos = Inr ([], pos)"
| "obfuscate (d # ds) k pos =
     (if pos < length k then
        (case obfuscate ds k ((pos + 1) mod length k) of
           Inl e \<Rightarrow> Inl e
         | Inr (r, pos') \<Rightarrow> Inr ((d XOR k ! pos) # r, pos'))
      else Inl IndexOutOfRange)"

text \<open>
  The TLS stream below the connection is the list of bytes in flight. \<open>Write\<close> returns
  its result, the connection and the bytes it puts on the stream (the stream is taken to
  accept them). \<open>Read\<close> takes the capacity of the caller's buffer and the bytes waiting on
  the stream, and returns the bytes it hands to the caller, the connection and the rest of
  the stream. The length prefix is decoded with a temporary position that is thrown away;
  the payload is then decoded from the connection's own position.
\<close>

definition Write ::
  "ObfuscatedConnection \<Rightarrow> byte list \<Rightarrow> (error + nat) \<times>
    ObfuscatedConnection \<times> byte list" where
  "Write c b =
     (let packet = PutUint32 (of_nat (length b)) @ copy_bytes (make_bytes (length b)) b;
          tempKeyPos = keyPos c
      in case obfuscate packet (key c) tempKeyPos of
           Inl e \<Rightarrow> (Inl e, c, [])
         | Inr (packet, tempKeyPos) \<Rightarrow> (Inr (length b), c\<lparr>keyPos :=
           tempKeyPos\<rparr>, packet))"

definition Read ::
  "ObfuscatedConnection \<Rightarrow> nat \<Rightarrow> byte list \<Rightarrow> (error + byte
    list) \<times> ObfuscatedConnection \<times> byte list" where
  "Read c cap stream =
     (case ReadFull stream 4 of
        Inl e \<Rightarrow> (Inl e, c, stream)
      | Inr (lenBuf, stream) \<Rightarrow>
          let tempKeyPos = keyPos c in
          (case obfuscate lenBuf (key c) tempKeyPos of
             Inl e \<Rightarrow> (Inl e, c, stream)
           | Inr (lenBuf, tempKeyPos) \<Rightarrow>
               let len = Uint32 lenBuf in
               if len > 65535 then (Inl InvalidPacketLength, c, stream)
               else
                 (case ReadFull stream (unat len) of
                    Inl e \<Rightarrow> (Inl e, c, stream)
                  | Inr (data, stream) \<Rightarrow>
                      (case obfuscate data (key c) (keyPos c) of
                         Inl e \<Rightarrow> (Inl e, c, stream)
                       | Inr (data, pos) \<Rightarrow> (Inr (take cap data), c\<lparr>keyPos :=
                         pos\<rparr>, stream)))))"

section \<open>The address pool (pkg/server/server.go, IPPool)\<close>

text \<open>
  A \<open>net.IPNet\<close> is its address and its mask; the mask is represented by the pair
  \<open>(ones, bits)\<close> that \<open>Mask.Size()\<close> returns. The pool's \<open>used\<close> is a Go
  \<open>map[string]bool\<close>: a partial map whose missing keys read as \<open>false\<close>.
\<close>

record IPNet =
  IP :: "byte list"
  MaskSize :: "nat \<times> nat"

record IPPool =
  baseIP :: "byte list"
  subnet :: IPNet
  used :: "string \<rightharpoonup> bool"
  nextHost :: "32 word"

text \<open>
  \<open>IP.To4\<close> returns a 4-byte address as it is, the last four bytes of a 16-byte
  IPv4-mapped address, and \<open>nil\<close> otherwise. \<open>IP.String\<close> prints an address that has a
  4-byte form as a dotted quad, each byte in decimal without leading zeros (\<open>ubtoa\<close>).
  The other forms of \<open>String\<close> (IPv6 text, and the fallbacks for slices that are no
  address) are not modelled; the pool only ever holds 4-byte addresses.
\<close>

definition To4 :: "byte list \<Rightarrow> byte list option" where
  "To4 ip =
     (if length ip = 4 then Some ip
      else if length ip = 16 \<and> take 10 ip = replicate 10 0 \<and> ip ! 10 = 0xff \<and> ip !
        11 = 0xff
        then Some (drop 12 ip)
      else None)"

definition digit_char :: "nat \<Rightarrow> char" where
  "digit_char n = char_of (n + 48)"

definition ubtoa :: "byte \<Rightarrow> string" where
  "ubtoa v =
     (let n = unat v in
      if n < 10 then [digit_char n]
      else if n < 100 then [digit_char (n div 10), digit_char (n mod 10)]
      else [digit_char (n div 100), digit_char (n div 10 mod 10), digit_char (n mod 10)])"

definition ip_String :: "byte list \<Rightarrow> string" where
  "ip_String ip =
     (case To4 ip of
        Some [a, b, c, d] \<Rightarrow> ubtoa a @ ''.'' @ ubtoa b @ ''.'' @ ubtoa c @ ''.'' @
          ubtoa d
      | _ \<Rightarrow> ''?'')"

definition is_used :: "(string \<rightharpoonup> bool) \<Rightarrow> string \<Rightarrow> bool"
  where
  "is_used m k = (case m k of None \<Rightarrow> False | Some v \<Rightarrow> v)"

definition NewIPPool :: "IPNet \<Rightarrow> IPPool" where
  "NewIPPool sn = \<lparr>baseIP = IP sn, subnet = sn, used = Map.empty, nextHost = 2\<rparr>"

text \<open>
  The loop of \<open>Allocate\<close>, from the value \<open>i\<close> of its counter on. The counter is a
  \<open>uint32\<close> that stays below \<open>maxHosts - 2\<close>, so it never wraps and is a \<open>nat\<close> here;
  all other arithmetic is on 32-bit words, as in the source. The remainder by
  \<open>maxHosts - 1 = 0\<close> is the division-by-zero panic, and \<open>binary.BigEndian.Uint32\<close> on
  the \<open>nil\<close> that \<open>To4\<close> returns for a base address without a 4-byte form is the
  index panic. A call that fails leaves the pool unchanged. \<open>maxHosts\<close> is
  \<open>uint32(1 << (bits - ones))\<close>, a shift of a 32-bit one, for a mask with
  \<open>ones \<le> bits\<close>.
\<close>

function alloc_scan :: "IPPool \<Rightarrow> 32 word \<Rightarrow> nat \<Rightarrow> (error + byte
  list) \<times> IPPool" where
  "alloc_scan p maxHosts i =
     (if i < unat (maxHosts - 2) then
        (if maxHosts - 1 = 0 then (Inl DivideByZero, p)
         else
           let hostNum = (nextHost p + of_nat i) mod (maxHosts - 1);
               hostNum = (if hostNum < 2 then 2 else hostNum)
           in case To4 (baseIP p) of
                None \<Rightarrow> (Inl IndexOutOfRange, p)
              | Some b4 \<Rightarrow>
                  let baseInt = Uint32 b4;
                      ip = PutUint32 (baseInt + hostNum);
                      ipStr = ip_String ip
                  in if \<not> is_used (used p) ipStr
                     then (Inr ip, p\<lparr>used := (used p)(ipStr \<mapsto> True), nextHost :=
                       hostNum + 1\<rparr>)
                     else alloc_scan p maxHosts (i + 1))
      else (Inl PoolExhausted, p))"
  by pat_completeness auto
termination
  by (relation "measure (\<lambda>(p, maxHosts, i). unat (maxHosts - 2) - i)") auto

definition Allocate :: "IPPool \<Rightarrow> (error + byte list) \<times> IPPool" where
  "Allocate p =
     (let (ones, bits) = MaskSize (subnet p);
          maxHosts = push_bit (bits - ones) (1 :: 32 word)
      in alloc_scan p maxHosts 0)"

definition Release :: "IPPool \<Rightarrow> byte list \<Rightarrow> IPPool" where
  "Release p ip = p\<lparr>used := (used p)(ip_String ip := None)\<rparr>"

text \<open>\<open>n\<close> consecutive calls of \<open>Allocate\<close>: their results in order, and the pool they leave.\<close>

fun allocate_times :: "nat \<Rightarrow> IPPool \<Rightarrow> (error + byte list) list \<times>
  IPPool" where
  "allocate_times 0 p = ([], p)"
| "allocate_times (Suc n) p =
     (let (r, p) = Allocate p; (rs, p) = allocate_times n p in (r # rs, p))"

text \<open>The server's pool: \<open>10.8.0.0/24\<close>.\<close>

definition server_subnet :: IPNet where
  "server_subnet = \<lparr>IP = [10, 8, 0, 0], MaskSize = (24, 32)\<rparr>"

text \<open>
  Names for the statements about the server's pool: the key under which host number \<open>h\<close>
  of \<open>10.8.0.0/24\<close> is stored, the loop's adjustment of a host number below 2, and the
  pool as \<open>k\<close> allocations from a new pool leave it (proved below).
\<close>

definition host_key :: "nat \<Rightarrow> string" where
  "host_key h = ip_String [10, 8, 0, of_nat h]"

definition clamp_host :: "nat \<Rightarrow> nat" where
  "clamp_host h = (if h < 2 then 2 else h)"

definition pool_after :: "nat \<Rightarrow> IPPool" where
  "pool_after k =
     \<lparr>baseIP = [10, 8, 0, 0], subnet = server_subnet,
      used = (\<lambda>s. if s \<in> host_key ` {2..<2 + k} then Some True else None),
      nextHost = of_nat (2 + k)\<rparr>"

section \<open>Facts about the byte helpers\<close>

lemma copy_make_same: "n = length xs \<Longrightarrow> copy_bytes (make_bytes n) xs = xs"
  by (simp add: copy_bytes_def make_bytes_def)

lemma length_PutUint64: "length (PutUint64 v) = 8"
  by (simp add: PutUint64_def)

lemma length_PutUint16: "length (PutUint16 v) = 2"
  by (simp add: PutUint16_def)

lemma bit_byte_high [simp]: "n \<ge> 8 \<Longrightarrow> \<not> bit (b :: byte) n"
  by (auto dest: bit_imp_le_length)

lemma Uint16_PutUint16: "Uint16 (PutUint16 v) = v"
  unfolding Uint16_def PutUint16_def
  by (rule bit_word_eqI) (auto simp add: bit_simps)

lemma PutUint16_Uint16: "PutUint16 (Uint16 [a, b]) = [a, b]"
proof -
  have "ucast (drop_bit 8 (Uint16 [a, b])) = a"
    unfolding Uint16_def by (rule bit_word_eqI) (simp add: bit_simps)
  moreover have "ucast (Uint16 [a, b]) = b"
    unfolding Uint16_def by (rule bit_word_eqI) (simp add: bit_simps)
  ultimately show ?thesis
    by (simp add: PutUint16_def)
qed

lemma Uint64_PutUint64: "Uint64 (PutUint64 v) = v"
proof (rule bit_word_eqI)
  fix n assume n: "n < LENGTH(64)"
  have "bit (Uint64 (PutUint64 v)) n \<longleftrightarrow> (n < 8 \<or> (8 \<le> n \<and> n < 16)
    \<or> (16 \<le> n \<and> n < 24)
      \<or> (24 \<le> n \<and> n < 32) \<or> (32 \<le> n \<and> n < 40) \<or> (40 \<le> n \<and> n
        < 48)
      \<or> (48 \<le> n \<and> n < 56) \<or> 56 \<le> n) \<and> bit v n"
    unfolding Uint64_def PutUint64_def using n
    by (simp add: bit_simps conj_disj_distribR less_diff_conv2 cong: conj_cong)
  also have "\<dots> \<longleftrightarrow> bit v n"
  proof -
    have "n < 8 \<or> (8 \<le> n \<and> n < 16) \<or> (16 \<le> n \<and> n < 24)
      \<or> (24 \<le> n \<and> n < 32) \<or> (32 \<le> n \<and> n < 40) \<or> (40 \<le> n \<and> n
        < 48)
      \<or> (48 \<le> n \<and> n < 56) \<or> 56 \<le> n"
      by arith
    then show ?thesis by (simp only: simp_thms)
  qed
  finally show "bit (Uint64 (PutUint64 v)) n \<longleftrightarrow> bit v n" .
qed

lemma PutUint64_Uint64: "PutUint64 (Uint64 [a, b, c, d, e, f, g, h]) = [a, b, c, d, e, f, g, h]"
proof -
  define w :: "64 word" where "w = Uint64 [a, b, c, d, e, f, g, h]"
  have "ucast (drop_bit 56 w) = a"
    unfolding w_def Uint64_def by (rule bit_word_eqI) (simp add: bit_simps)
  moreover have "ucast (drop_bit 48 w) = b"
    unfolding w_def Uint64_def by (rule bit_word_eqI) (simp add: bit_simps)
  moreover have "ucast (drop_bit 40 w) = c"
    unfolding w_def Uint64_def by (rule bit_word_eqI) (simp add: bit_simps)
  moreover have "ucast (drop_bit 32 w) = d"
    unfolding w_def Uint64_def by (rule bit_word_eqI) (simp add: bit_simps)
  moreover have "ucast (drop_bit 24 w) = e"
    unfolding w_def Uint64_def by (rule bit_word_eqI) (simp add: bit_simps)
  moreover have "ucast (drop_bit 16 w) = f"
    unfolding w_def Uint64_def by (rule bit_word_eqI) (simp add: bit_simps)
  moreover have "ucast (drop_bit 8 w) = g"
    unfolding w_def Uint64_def by (rule bit_word_eqI) (simp add: bit_simps)
  moreover have "ucast w = h"
    unfolding w_def Uint64_def by (rule bit_word_eqI) (simp add: bit_simps)
  ultimately show ?thesis
    unfolding w_def [symmetric] PutUint64_def by simp
qed

lemma take_Suc_drop:
  "n < length xs \<Longrightarrow> take (Suc k) (drop n xs) = xs ! n # take k (drop (Suc n) xs)"
  by (simp add: Cons_nth_drop_Suc [symmetric])

lemma take_2_explode:
  assumes "n + 2 \<le> length xs"
  shows "take 2 (drop n xs) = [xs ! n, xs ! (n + 1)]"
proof -
  have "take (Suc (Suc 0)) (drop n xs) = [xs ! n, xs ! (n + 1)]"
    using assms by (simp add: take_Suc_drop)
  then show ?thesis by (simp add: numeral_2_eq_2)
qed

lemma take_8_explode:
  assumes "n + 8 \<le> length xs"
  shows "take 8 (drop n xs) = [xs ! n, xs ! (n + 1), xs ! (n + 2), xs ! (n + 3), xs ! (n + 4),
     xs ! (n + 5), xs ! (n + 6), xs ! (n + 7)]"
proof -
  have "take (Suc (Suc (Suc (Suc (Suc (Suc (Suc (Suc 0)))))))) (drop n xs) =
    [xs ! n, xs ! (n + 1), xs ! (n + 2), xs ! (n + 3), xs ! (n + 4),
     xs ! (n + 5), xs ! (n + 6), xs ! (n + 7)]"
    using assms by (simp add: take_Suc_drop numeral_eq_Suc)
  then show ?thesis by (simp add: numeral_eq_Suc)
qed

lemma take_4_explode:
  assumes "4 \<le> length xs"
  shows "take 4 xs = [xs ! 0, xs ! 1, xs ! 2, xs ! 3]"
proof -
  have "take (Suc (Suc (Suc (Suc 0)))) (drop 0 xs) = [xs ! 0, xs ! 1, xs ! 2, xs ! 3]"
    using assms by (simp only: take_Suc_drop) (simp add: take_Suc_drop numeral_eq_Suc)
  then show ?thesis by (simp add: numeral_eq_Suc)
qed

lemma split_header:
  assumes "14 \<le> length b"
  shows "take 4 b @ take 8 (drop 4 b) @ take 2 (drop 12 b) @ drop 14 b = b"
proof -
  have "take 8 (drop 4 b) @ take 2 (drop 12 b) @ drop 14 b = drop 4 b"
  proof -
    have "take 2 (drop 12 b) @ drop 14 b = drop 12 b"
      using append_take_drop_id [of 2 "drop 12 b"] by simp
    moreover have "take 8 (drop 4 b) @ drop 12 b = drop 4 b"
      using append_take_drop_id [of 8 "drop 4 b"] by simp
    ultimately show ?thesis by simp
  qed
  then show ?thesis by simp
qed

section \<open>Facts about framing\<close>

lemma Marshal_length: "length (Marshal p) = HeaderSize + length (Payload p)"
  by (simp add: Marshal_def HeaderSize_def PutUint64_def PutUint16_def copy_make_same)

lemma Marshal_nth_header:
  "Marshal p ! 0 = fst (Magic (Header p))"
  "Marshal p ! Suc 0 = snd (Magic (Header p))"
  "Marshal p ! 2 = Version (Header p)"
  "Marshal p ! 3 = Type (Header p)"
  by (simp_all add: Marshal_def numeral_eq_Suc)

lemma Marshal_session_bytes: "take 8 (drop 4 (Marshal p)) = PutUint64 (SessionID (Header p))"
  by (simp add: Marshal_def length_PutUint64)

lemma Marshal_length_bytes: "take 2 (drop 12 (Marshal p)) = PutUint16 (Length (Header p))"
  by (simp add: Marshal_def length_PutUint64 length_PutUint16)

lemma Marshal_payload_bytes: "drop HeaderSize (Marshal p) = Payload p"
  by (simp add: Marshal_def HeaderSize_def length_PutUint64 length_PutUint16 copy_make_same)

lemma Unmarshal_Marshal:
  assumes "Magic (Header p) = (MagicByte1, MagicByte2)"
    and "Version (Header p) = ProtocolVersion"
    and "unat (Length (Header p)) = length (Payload p)"
  shows "UnmarshalPacket (Marshal p) = Inr p"
proof -
  have len: "uint (Length (Header p)) = int (length (Payload p))"
    using assms(3) by (metis uint_nat)
  have hdr: "\<lparr>Magic = (MagicByte1, MagicByte2), Version = ProtocolVersion,
       Type = Type (Header p), SessionID = SessionID (Header p),
       Length = Length (Header p)\<rparr> = Header p"
    using assms(1,2) by (cases "Header p") simp
  show ?thesis
    unfolding UnmarshalPacket_def
    using assms len hdr
    by (simp add: Marshal_length Marshal_nth_header Marshal_session_bytes Marshal_length_bytes
        Marshal_payload_bytes Uint64_PutUint64 Uint16_PutUint16 copy_make_same Let_def)
qed

lemma Marshal_Unmarshal:
  assumes "UnmarshalPacket b = Inr q"
  shows "Marshal q = b"
proof -
  let ?len = "Uint16 (take 2 (drop 12 b))"
  from assms have size: "HeaderSize \<le> length b"
    and l: "uint ?len = int (length b) - int HeaderSize"
    and q: "q = \<lparr>Header = \<lparr>Magic = (b ! 0, b ! 1), Version = b ! 2, Type = b ! 3,
                              SessionID = Uint64 (take 8 (drop 4 b)), Length = ?len\<rparr>,
                  Payload = copy_bytes (make_bytes (unat ?len)) (drop HeaderSize b)\<rparr>"
    by (auto simp add: UnmarshalPacket_def Let_def split: if_splits)
  from l size have ul: "unat ?len = length b - HeaderSize"
    by (simp add: unat_eq_nat_uint)
  have pay: "Payload q = drop HeaderSize b"
    by (simp add: q ul copy_bytes_def make_bytes_def)
  have n14: "14 \<le> length b" using size by (simp add: HeaderSize_def)
  have "take 8 (drop 4 b) = [b ! 4, b ! 5, b ! 6, b ! 7, b ! 8, b ! 9, b ! 10, b ! 11]"
    using n14 take_8_explode [of 4 b] by simp
  then have s: "PutUint64 (SessionID (Header q)) = take 8 (drop 4 b)"
    by (simp add: q PutUint64_Uint64)
  have "take 2 (drop 12 b) = [b ! 12, b ! 13]"
    using n14 take_2_explode [of 12 b] by simp
  then have ln: "PutUint16 (Length (Header q)) = take 2 (drop 12 b)"
    by (simp add: q PutUint16_Uint16)
  have h4: "[fst (Magic (Header q)), snd (Magic (Header q)), Version (Header q), Type (Header q)]
      = take 4 b"
    using n14 by (simp add: q take_4_explode)
  have "Marshal q = take 4 b @ take 8 (drop 4 b) @ take 2 (drop 12 b) @ drop 14 b"
    unfolding Marshal_def s ln pay h4
    by (simp add: HeaderSize_def copy_make_same)
  also have "\<dots> = b"
    using n14 by (rule split_header)
  finally show ?thesis .
qed

section \<open>Framing: the parser's error condition and the round trip\<close>

lemma UnmarshalPacket_Inl_iff:
  "(\<exists>e. UnmarshalPacket b = Inl e) \<longleftrightarrow>
     (length b < 14 \<or> b ! 0 \<noteq> 0x48 \<or> b ! 1 \<noteq> 0x56 \<or> b ! 2 \<noteq> 1
      \<or> unat (Uint16 [b ! 12, b ! 13]) \<noteq> length b - 14)"
proof (cases "length b < 14")
  case True
  then show ?thesis by (simp add: UnmarshalPacket_def HeaderSize_def)
next
  case False
  then have n14: "14 \<le> length b" by simp
  have t2: "take 2 (drop 12 b) = [b ! 12, b ! 13]"
    using n14 take_2_explode [of 12 b] by simp
  have "uint (Uint16 [b ! 12, b ! 13]) \<noteq> int (length b) - 14
      \<longleftrightarrow> unat (Uint16 [b ! 12, b ! 13]) \<noteq> length b - 14"
    using n14 uint_nat [of "Uint16 [b ! 12, b ! 13]"] by arith
  then show ?thesis
    using n14 by (auto simp add: UnmarshalPacket_def HeaderSize_def MagicByte1_def MagicByte2_def
        ProtocolVersion_def t2 Let_def)
qed

text \<open>
  Claim C8. \<open>UnmarshalPacket\<close> returns an error exactly when the input has fewer than
  14 bytes, or its first two bytes are not \<open>0x48 0x56\<close>, or its version byte is not 1, or
  its length field (bytes 12 and 13, big-endian) is not the number of bytes after the
  header. The type byte plays no part: overwriting byte 3 with any value never changes
  whether the input is rejected, and an accepted packet carries byte 3 as its type.
\<close>

theorem UnmarshalPacket_error_iff:
  "((\<exists>e. UnmarshalPacket b = Inl e) \<longleftrightarrow>
     (length b < 14 \<or> b ! 0 \<noteq> 0x48 \<or> b ! 1 \<noteq> 0x56 \<or> b ! 2 \<noteq> 1
      \<or> unat (Uint16 [b ! 12, b ! 13]) \<noteq> length b - 14))
   \<and> (\<forall>t. (\<exists>e. UnmarshalPacket (b[3 := t]) = Inl e) \<longleftrightarrow>
     (\<exists>e. UnmarshalPacket b = Inl e))
   \<and> (\<forall>q. UnmarshalPacket b = Inr q \<longrightarrow> Type (Header q) = b ! 3)"
proof (intro conjI allI impI)
  show "(\<exists>e. UnmarshalPacket b = Inl e) \<longleftrightarrow>
     (length b < 14 \<or> b ! 0 \<noteq> 0x48 \<or> b ! 1 \<noteq> 0x56 \<or> b ! 2 \<noteq> 1
      \<or> unat (Uint16 [b ! 12, b ! 13]) \<noteq> length b - 14)"
    by (rule UnmarshalPacket_Inl_iff)
next
  fix t
  show "(\<exists>e. UnmarshalPacket (b[3 := t]) = Inl e) \<longleftrightarrow> (\<exists>e.
    UnmarshalPacket b = Inl e)"
    unfolding UnmarshalPacket_Inl_iff by simp
next
  fix q assume "UnmarshalPacket b = Inr q"
  then show "Type (Header q) = b ! 3"
    by (auto simp add: UnmarshalPacket_def Let_def split: if_splits)
qed

text \<open>
  The theorem at two inputs: a frame with magic \<open>0x48 0x00\<close> is rejected, and a well-formed
  frame with the unassigned type \<open>0xEE\<close> is not.
\<close>

theorem UnmarshalPacket_error_iff_witness:
  "(\<exists>e. UnmarshalPacket [0x48, 0x00, 1, 4, 0, 0, 0, 0, 0, 0, 0, 7, 0, 0] = Inl e)
   \<and> \<not> (\<exists>e. UnmarshalPacket [0x48, 0x56, 1, 0xEE, 0, 0, 0, 0, 0, 0, 0, 7, 0, 1,
     9] = Inl e)"
  using UnmarshalPacket_error_iff [of "[0x48, 0x00, 1, 4, 0, 0, 0, 0, 0, 0, 0, 7, 0, 0]"]
    UnmarshalPacket_error_iff [of "[0x48, 0x56, 1, 0xEE, 0, 0, 0, 0, 0, 0, 0, 7, 0, 1, 9]"]
  by (simp add: Uint16_def)

text \<open>
  Claim C2. A packet with the magic bytes, version 1 and a length field equal to the
  length of its payload is parsed back from its marshalled bytes unchanged; and every byte
  string is either rejected by \<open>UnmarshalPacket\<close> or parsed into a packet whose
  marshalled bytes are the byte string itself.
\<close>

theorem framing_roundtrip:
  "(Magic (Header p) = (MagicByte1, MagicByte2) \<and> Version (Header p) = ProtocolVersion
      \<and> unat (Length (Header p)) = length (Payload p)
     \<longrightarrow> UnmarshalPacket (Marshal p) = Inr p)
   \<and> ((\<exists>e. UnmarshalPacket b = Inl e) \<or> (\<exists>q. UnmarshalPacket b = Inr q
     \<and> Marshal q = b))"
proof (intro conjI impI)
  assume "Magic (Header p) = (MagicByte1, MagicByte2) \<and> Version (Header p) = ProtocolVersion
      \<and> unat (Length (Header p)) = length (Payload p)"
  then show "UnmarshalPacket (Marshal p) = Inr p"
    by (simp add: Unmarshal_Marshal)
next
  show "(\<exists>e. UnmarshalPacket b = Inl e) \<or> (\<exists>q. UnmarshalPacket b = Inr q
    \<and> Marshal q = b)"
  proof (cases "UnmarshalPacket b")
    case (Inl e)
    then show ?thesis by simp
  next
    case (Inr q)
    then show ?thesis by (simp add: Marshal_Unmarshal)
  qed
qed

text \<open>The theorem at a Data packet with three payload bytes and at a 15-byte frame.\<close>

theorem framing_roundtrip_witness:
  "UnmarshalPacket (Marshal (NewPacket PacketTypeData 7 [1, 2, 3]))
     = Inr (NewPacket PacketTypeData 7 [1, 2, 3])
   \<and> (\<exists>q. UnmarshalPacket [0x48, 0x56, 1, 4, 0, 0, 0, 0, 0, 0, 0, 7, 0, 1, 9] = Inr q
        \<and> Marshal q = [0x48, 0x56, 1, 4, 0, 0, 0, 0, 0, 0, 0, 7, 0, 1, 9])"
proof -
  have "\<not> (\<exists>e. UnmarshalPacket [0x48, 0x56, 1, 4, 0, 0, 0, 0, 0, 0, 0, 7, 0, 1, 9] =
    Inl e)"
    by (simp add: UnmarshalPacket_Inl_iff Uint16_def)
  then show ?thesis
    using framing_roundtrip [of "NewPacket PacketTypeData 7 [1, 2, 3]"
        "[0x48, 0x56, 1, 4, 0, 0, 0, 0, 0, 0, 0, 7, 0, 1, 9]"]
    by (simp add: NewPacket_def)
qed

text \<open>
  Claim C9. For a payload of 65536 bytes or more, \<open>NewPacket\<close> stores the payload length
  modulo \<open>2 ^ 16\<close> in the length field and keeps the whole payload; the length field of
  the marshalled bytes then differs from the number of payload bytes that follow the
  header, and \<open>UnmarshalPacket\<close> rejects those bytes.
\<close>

theorem NewPacket_oversized_rejected:
  assumes "65536 \<le> length payload"
  shows "unat (Length (Header (NewPacket t sid payload))) = length payload mod 2 ^ 16
    \<and> Payload (NewPacket t sid payload) = payload
    \<and> unat (Uint16 (take 2 (drop 12 (Marshal (NewPacket t sid payload)))))
        \<noteq> length (drop HeaderSize (Marshal (NewPacket t sid payload)))
    \<and> (\<exists>e. UnmarshalPacket (Marshal (NewPacket t sid payload)) = Inl e)"
proof -
  let ?p = "NewPacket t sid payload"
  have len: "unat (Length (Header ?p)) = length payload mod 2 ^ 16"
    by (simp add: NewPacket_def unat_of_nat)
  have pay: "Payload ?p = payload"
    by (simp add: NewPacket_def)
  have lt: "unat (Length (Header ?p)) < 65536"
    unfolding len by simp
  have field: "Uint16 (take 2 (drop 12 (Marshal ?p))) = Length (Header ?p)"
    by (simp add: Marshal_length_bytes Uint16_PutUint16)
  have ne: "unat (Uint16 (take 2 (drop 12 (Marshal ?p)))) \<noteq> length (drop HeaderSize
    (Marshal ?p))"
    unfolding field Marshal_payload_bytes pay using lt assms by simp
  have "UnmarshalPacket (Marshal ?p) = Inl PayloadLengthMismatch"
  proof -
    have "uint (Length (Header ?p)) \<noteq> int (length payload)"
      using lt assms uint_nat [of "Length (Header ?p)"] by arith
    then show ?thesis
      unfolding UnmarshalPacket_def
      by (simp add: Marshal_length Marshal_nth_header field pay Let_def)
        (simp add: NewPacket_def)
  qed
  with len pay ne show ?thesis by simp
qed

text \<open>The theorem at a payload of 65537 zero bytes: the length field reads 1.\<close>

theorem NewPacket_oversized_rejected_witness:
  "unat (Length (Header (NewPacket PacketTypeData 1 (replicate 65537 0)))) = 1
   \<and> (\<exists>e. UnmarshalPacket (Marshal (NewPacket PacketTypeData 1 (replicate 65537 0)))
     = Inl e)"
  using NewPacket_oversized_rejected [of "replicate 65537 0" PacketTypeData 1]
  by simp

section \<open>HKDF-SHA256: test vectors and lengths\<close>

text \<open>The digest of the three bytes \<open>abc\<close>, the standard's first example message.\<close>

lemma sha256_abc:
  "sha256 [0x61, 0x62, 0x63] = [0xba, 0x78, 0x16, 0xbf, 0x8f, 0x01, 0xcf, 0xea, 0x41, 0x41, 0x40,
     0xde, 0x5d, 0xae, 0x22, 0x23, 0xb0, 0x03, 0x61, 0xa3, 0x96, 0x17, 0x7a, 0x9c, 0xb4, 0x10,
     0xff, 0x61, 0xf2, 0x00, 0x15, 0xad]"
  by code_simp

lemma length_round256: "length (fst (round256 s k)) = length (fst s)"
  by (induction s k rule: round256.induct) (simp_all add: Let_def)

lemma length_rounds: "length (fst (foldl round256 s ks)) = length (fst s)"
  by (induction ks arbitrary: s) (simp_all add: length_round256)

lemma length_compress: "length (compress hs block) = length hs"
  by (simp add: compress_def length_rounds)

lemma length_blocks: "length (blocks hs m) = length hs"
  by (induction hs m rule: blocks.induct) (simp_all add: length_compress)

lemma length_concat_put32: "length (concat (map put32 ws)) = 4 * length ws"
  by (induction ws) (simp_all add: put32_def)

lemma length_sha256: "length (sha256 m) = 32"
  by (simp add: sha256_def length_concat_put32 length_blocks H256_def)

lemma length_hmac256: "length (hmac256 k m) = 32"
  by (simp add: hmac256_def Let_def length_sha256)

lemma length_hkdf_expand: "length (hkdf_expand n prk info prev i) = 32 * n"
  by (induction n arbitrary: prev i) (simp_all add: length_hmac256)

lemma length_HKDF_SHA256: "length (HKDF_SHA256 secret salt info) = 8160"
  by (simp add: HKDF_SHA256_def length_hkdf_expand)

text \<open>
  The digest has 32 bytes whatever the input, so the stream of \<open>HKDF_SHA256\<close> has
  \<open>255 * 32\<close> bytes and its first 32 bytes are the block \<open>T(1)\<close>.
\<close>

lemma take_32_hkdf_expand:
  "take 32 (hkdf_expand (Suc n) prk info [] 1) = hmac256 prk (info @ [1])"
  by (simp add: length_hmac256)

lemma take_32_HKDF_SHA256:
  "take 32 (HKDF_SHA256 secret salt info)
     = map of_int (hmac256 (hkdf_extract (map uint salt) (map uint secret)) (map uint info @ [1]))"
proof -
  have "(255 :: nat) = Suc 254" by simp
  then show ?thesis
    unfolding HKDF_SHA256_def by (simp only: take_map take_32_hkdf_expand)
qed

text \<open>
  Test case 1 of RFC 5869 (appendix A.1): the first 32 bytes of the output keying
  material.
\<close>

lemma HKDF_SHA256_rfc5869_case1:
  "take 32 (HKDF_SHA256 (replicate 22 0x0b) [0, 1, 2, 3, 4, 5, 6, 7, 8, 9, 10, 11, 12]
      [0xf0, 0xf1, 0xf2, 0xf3, 0xf4, 0xf5, 0xf6, 0xf7, 0xf8, 0xf9])
   = [0x3c, 0xb2, 0x5f, 0x25, 0xfa, 0xac, 0xd5, 0x7a, 0x90, 0x43, 0x4f, 0x64, 0xd0, 0x36, 0x2f,
      0x2a, 0x2d, 0x2d, 0x0a, 0x90, 0xcf, 0x1a, 0x5a, 0x4c, 0x5d, 0xb0, 0x2d, 0x56, 0xec, 0xc4,
      0xc5, 0xbf]"
proof -
  have prk: "hkdf_extract [0, 1, 2, 3, 4, 5, 6, 7, 8, 9, 10, 11, 12] (replicate 22 11) = [7, 119,
    9, 54, 44, 46, 50, 223, 13, 220, 63, 13, 196, 123, 186, 99, 144, 182, 199, 59, 181, 15, 156,
    49, 34, 236, 132, 74, 215, 194, 179, 229]"
    unfolding hkdf_extract_def by code_simp
  have t1: "hmac256 [7, 119, 9, 54, 44, 46, 50, 223, 13, 220, 63, 13, 196, 123, 186, 99, 144, 182,
    199, 59, 181, 15, 156, 49, 34, 236, 132, 74, 215, 194, 179, 229] [240, 241, 242, 243, 244,
    245, 246, 247, 248, 249, 1] = [60, 178, 95, 37, 250, 172, 213, 122, 144, 67, 79, 100, 208, 54,
    47, 42, 45, 45, 10, 144, 207, 26, 90, 76, 93, 176, 45, 86, 236, 196, 197, 191]"
    by code_simp
  show ?thesis
    unfolding take_32_HKDF_SHA256 by (simp add: prk t1)
qed

section \<open>Session keys, \<open>Encrypt\<close> and \<open>Decrypt\<close>\<close>

lemma DeriveSessionKeys_ok:
  assumes "64 \<le> length (hkdf ss salt session_keys_info)"
  shows "DeriveSessionKeys hkdf ss isInitiator salt =
     (let key1 = take 32 (hkdf ss salt session_keys_info);
          key2 = take 32 (drop 32 (hkdf ss salt session_keys_info))
      in Inr \<lparr>SendKey = (if isInitiator then key1 else key2),
               RecvKey = (if isInitiator then key2 else key1),
               SendNonce = 0, RecvNonce = 0,
               sendCipher = (if isInitiator then key1 else key2),
               recvCipher = (if isInitiator then key2 else key1)\<rparr>)"
  using assms by (simp add: DeriveSessionKeys_def ReadFull_def NewX_def Let_def)

lemma DeriveSessionKeys_short:
  assumes "\<not> 64 \<le> length (hkdf ss salt session_keys_info)"
  shows "DeriveSessionKeys hkdf ss isInitiator salt = Inl ShortRead"
proof -
  have "\<not> 32 \<le> length (hkdf ss salt session_keys_info)
      \<or> \<not> 32 \<le> length (drop 32 (hkdf ss salt session_keys_info))"
    using assms by auto
  then show ?thesis
    unfolding DeriveSessionKeys_def ReadFull_def Let_def by auto
qed

text \<open>
  Claim C5. On the same shared secret and salt, the session derived as initiator and the
  session derived as responder have crossed keys: the initiator's send key is the
  responder's receive key and the initiator's receive key is the responder's send key.
  Both derivations succeed whenever the HKDF stream delivers its first 64 bytes.
\<close>

theorem DeriveSessionKeys_directional:
  "(64 \<le> length (hkdf ss salt session_keys_info) \<longrightarrow>
      (\<exists>i r. DeriveSessionKeys hkdf ss True salt = Inr i
           \<and> DeriveSessionKeys hkdf ss False salt = Inr r))
   \<and> (\<forall>i r. DeriveSessionKeys hkdf ss True salt = Inr i
           \<and> DeriveSessionKeys hkdf ss False salt = Inr r
         \<longrightarrow> SendKey i = RecvKey r \<and> RecvKey i = SendKey r)"
proof (cases "64 \<le> length (hkdf ss salt session_keys_info)")
  case True
  then show ?thesis by (auto simp add: DeriveSessionKeys_ok Let_def)
next
  case False
  then show ?thesis by (simp add: DeriveSessionKeys_short)
qed

text \<open>
  The theorem with HKDF-SHA256, a shared secret of 32 bytes \<open>7\<close> and a salt of 32 bytes
  \<open>9\<close>: both derivations succeed and the keys are crossed.
\<close>

theorem DeriveSessionKeys_directional_witness:
  "\<exists>i r. DeriveSessionKeys HKDF_SHA256 (replicate 32 7) True (replicate 32 9) = Inr i
      \<and> DeriveSessionKeys HKDF_SHA256 (replicate 32 7) False (replicate 32 9) = Inr r
      \<and> SendKey i = RecvKey r \<and> RecvKey i = SendKey r"
proof -
  let ?ss = "replicate 32 7 :: byte list" and ?salt = "replicate 32 9 :: byte list"
  have len: "64 \<le> length (HKDF_SHA256 ?ss ?salt session_keys_info)"
    by (simp add: length_HKDF_SHA256)
  from DeriveSessionKeys_directional [of HKDF_SHA256 ?ss ?salt] len
  obtain i r where "DeriveSessionKeys HKDF_SHA256 ?ss True ?salt = Inr i"
    and "DeriveSessionKeys HKDF_SHA256 ?ss False ?salt = Inr r"
    and "SendKey i = RecvKey r" and "RecvKey i = SendKey r"
    by blast
  then show ?thesis
    by blast
qed

lemma length_LittleEndian_PutUint64: "length (LittleEndian_PutUint64 v) = 8"
  by (simp add: LittleEndian_PutUint64_def)

lemma LittleEndian_PutUint64_nth:
  "i < 8 \<Longrightarrow> LittleEndian_PutUint64 v ! i = ucast (drop_bit (8 * i) v)"
proof -
  assume "i < 8"
  then have "i \<in> {0, 1, 2, 3, 4, 5, 6, 7}"
    by auto
  then show ?thesis
    by (auto simp add: LittleEndian_PutUint64_def)
qed

lemma Encrypt_ok:
  assumes "16 \<le> length rng"
  shows "Encrypt seal s rng pt =
    (let nonce = LittleEndian_PutUint64 (SendNonce s) @ take 16 rng
     in (Inr (nonce @ seal (sendCipher s) nonce pt), s\<lparr>SendNonce := SendNonce s +
       1\<rparr>, drop 16 rng))"
  using assms
  by (simp add: Encrypt_def ReadFull_def copy_bytes_def make_bytes_def Let_def
      length_LittleEndian_PutUint64)

lemma Encrypt_counter: "fst (snd (Encrypt seal s rng pt)) = s\<lparr>SendNonce := SendNonce s +
  1\<rparr>"
  by (simp add: Encrypt_def Let_def split: sum.split prod.split)

text \<open>
  Claim C7. When the random source delivers 16 bytes, \<open>Encrypt\<close> returns the 24-byte nonce
  followed by what the AEAD seals under that nonce; bytes 0 to 7 of the nonce are the
  little-endian bytes of the send counter as it was before the call and bytes 8 to 23 are
  the 16 random bytes. Every call, successful or not, leaves the session with the send
  counter incremented by one (modulo \<open>2 ^ 64\<close>) and nothing else changed.
\<close>

theorem Encrypt_nonce_layout:
  "(16 \<le> length rng \<longrightarrow>
      (\<exists>ct. fst (Encrypt seal s rng pt) = Inr ct
          \<and> 24 \<le> length ct
          \<and> (\<forall>i<8. ct ! i = ucast (drop_bit (8 * i) (SendNonce s)))
          \<and> take 8 ct = LittleEndian_PutUint64 (SendNonce s)
          \<and> take 16 (drop 8 ct) = take 16 rng
          \<and> drop 24 ct = seal (sendCipher s) (take 24 ct) pt))
   \<and> fst (snd (Encrypt seal s rng pt)) = s\<lparr>SendNonce := SendNonce s + 1\<rparr>"
proof (intro conjI impI)
  assume rng: "16 \<le> length rng"
  let ?nonce = "LittleEndian_PutUint64 (SendNonce s) @ take 16 rng"
  let ?ct = "?nonce @ seal (sendCipher s) ?nonce pt"
  have n24: "length ?nonce = 24"
    using rng by (simp add: length_LittleEndian_PutUint64)
  have res: "fst (Encrypt seal s rng pt) = Inr ?ct"
    using rng by (simp add: Encrypt_ok Let_def)
  have t24: "take 24 ?ct = ?nonce"
    using rng by (simp add: length_LittleEndian_PutUint64)
  have d24: "drop 24 ?ct = seal (sendCipher s) ?nonce pt"
    using rng by (simp add: length_LittleEndian_PutUint64)
  have cnt: "\<forall>i<8. ?ct ! i = ucast (drop_bit (8 * i) (SendNonce s))"
    by (simp add: nth_append length_LittleEndian_PutUint64 LittleEndian_PutUint64_nth)
  have t8: "take 8 ?ct = LittleEndian_PutUint64 (SendNonce s)"
    by (simp add: length_LittleEndian_PutUint64)
  have r16: "take 16 (drop 8 ?ct) = take 16 rng"
    using rng by (simp add: length_LittleEndian_PutUint64)
  have "24 \<le> length ?ct" using n24 by simp
  with res cnt t8 r16 d24 t24
  show "\<exists>ct. fst (Encrypt seal s rng pt) = Inr ct
          \<and> 24 \<le> length ct
          \<and> (\<forall>i<8. ct ! i = ucast (drop_bit (8 * i) (SendNonce s)))
          \<and> take 8 ct = LittleEndian_PutUint64 (SendNonce s)
          \<and> take 16 (drop 8 ct) = take 16 rng
          \<and> drop 24 ct = seal (sendCipher s) (take 24 ct) pt"
    by (intro exI [of _ ?ct]) (simp only: simp_thms)
next
  show "fst (snd (Encrypt seal s rng pt)) = s\<lparr>SendNonce := SendNonce s + 1\<rparr>"
    by (rule Encrypt_counter)
qed

text \<open>
  The theorem at the counter \<open>0x0102030405060708\<close>, sixteen random bytes \<open>0xAA\<close> and a
  stand-in seal that returns the plaintext.
\<close>

theorem Encrypt_nonce_layout_witness:
  "fst (Encrypt (\<lambda>c nonce plaintext. plaintext)
         \<lparr>SendKey = replicate 32 1, RecvKey = replicate 32 2,
          SendNonce = 0x0102030405060708, RecvNonce = 0,
          sendCipher = replicate 32 1, recvCipher = replicate 32 2\<rparr>
         (replicate 16 0xAA) [9])
     = Inr ([8, 7, 6, 5, 4, 3, 2, 1] @ replicate 16 0xAA @ [9])
   \<and> SendNonce (fst (snd (Encrypt (\<lambda>c nonce plaintext. plaintext)
         \<lparr>SendKey = replicate 32 1, RecvKey = replicate 32 2,
          SendNonce = 0x0102030405060708, RecvNonce = 0,
          sendCipher = replicate 32 1, recvCipher = replicate 32 2\<rparr>
         (replicate 16 0xAA) [9]))) = 0x0102030405060709"
proof -
  let ?seal = "\<lambda>c nonce plaintext :: byte list. plaintext"
  let ?s = "\<lparr>SendKey = replicate 32 1, RecvKey = replicate 32 2,
          SendNonce = 0x0102030405060708, RecvNonce = 0,
          sendCipher = replicate 32 1, recvCipher = replicate 32 2\<rparr>"
  let ?rng = "replicate 16 0xAA :: byte list"
  have rng: "16 \<le> length ?rng" by simp
  from Encrypt_nonce_layout [of ?rng ?seal ?s "[9]"] rng
  obtain ct where ct: "fst (Encrypt ?seal ?s ?rng [9]) = Inr ct"
    and t8: "take 8 ct = LittleEndian_PutUint64 (SendNonce ?s)"
    and r16: "take 16 (drop 8 ct) = take 16 ?rng"
    and d24: "drop 24 ct = ?seal (sendCipher ?s) (take 24 ct) [9]"
    and cnt: "fst (snd (Encrypt ?seal ?s ?rng [9])) = ?s\<lparr>SendNonce := SendNonce ?s +
      1\<rparr>"
    by blast
  have "take 16 (drop 8 ct) @ drop 24 ct = drop 8 ct"
    using append_take_drop_id [of 16 "drop 8 ct"] by simp
  then have "ct = take 8 ct @ take 16 (drop 8 ct) @ drop 24 ct"
    by simp
  also have "\<dots> = [8, 7, 6, 5, 4, 3, 2, 1] @ replicate 16 0xAA @ [9]"
    unfolding t8 r16 d24 by (simp add: LittleEndian_PutUint64_def)
  finally have "fst (Encrypt ?seal ?s ?rng [9]) = Inr ([8, 7, 6, 5, 4, 3, 2, 1] @ replicate 16
    0xAA @ [9])"
    using ct by simp
  moreover have "SendNonce (fst (snd (Encrypt ?seal ?s ?rng [9]))) = 0x0102030405060709"
    unfolding cnt by simp
  ultimately show ?thesis by (rule conjI)
qed

lemma Decrypt_error_keeps_session:
  "fst (Decrypt aopen s ct) = Inl e \<Longrightarrow> snd (Decrypt aopen s ct) = s"
  by (auto simp add: Decrypt_def split: option.splits if_splits)

text \<open>
  Claim C10. \<open>Decrypt\<close> answers an input of fewer than 24 bytes with the error
  \<open>CiphertextTooShort\<close>; it never reaches the panic of a slice bound out of range, because
  for every input of 24 bytes or more both slice expressions are in bounds and split the
  input into a 24-byte nonce and the rest; and whenever it returns an error the session,
  and so the receive counter, is unchanged.
\<close>

theorem Decrypt_bounds_safe:
  "(length ct < 24 \<longrightarrow> Decrypt aopen s ct = (Inl CiphertextTooShort, s))
   \<and> fst (Decrypt aopen s ct) \<noteq> Inl IndexOutOfRange
   \<and> (24 \<le> length ct \<longrightarrow>
        (\<exists>nonce rest. slice ct 0 24 = Some nonce \<and> slice ct 24 (length ct) = Some rest
           \<and> length nonce = 24 \<and> nonce @ rest = ct))
   \<and> (\<forall>e. fst (Decrypt aopen s ct) = Inl e \<longrightarrow> snd (Decrypt aopen s ct)
     = s)"
  by (auto simp add: Decrypt_def slice_def split: option.split)

text \<open>The theorem at a 3-byte input and at an input of 30 zero bytes.\<close>

theorem Decrypt_bounds_safe_witness:
  "Decrypt (\<lambda>c nonce ciphertext. None)
      \<lparr>SendKey = replicate 32 1, RecvKey = replicate 32 2, SendNonce = 0, RecvNonce = 5,
       sendCipher = replicate 32 1, recvCipher = replicate 32 2\<rparr> [1, 2, 3]
    = (Inl CiphertextTooShort,
       \<lparr>SendKey = replicate 32 1, RecvKey = replicate 32 2, SendNonce = 0, RecvNonce = 5,
        sendCipher = replicate 32 1, recvCipher = replicate 32 2\<rparr>)
   \<and> (\<exists>nonce rest. slice (replicate 30 0) 0 24 = Some nonce
         \<and> slice (replicate 30 0) 24 (length (replicate 30 (0 :: byte))) = Some rest
         \<and> length nonce = 24 \<and> nonce @ rest = replicate 30 0)"
proof -
  let ?aopen = "\<lambda>c nonce ciphertext :: byte list. None :: byte list option"
  let ?s = "\<lparr>SendKey = replicate 32 1, RecvKey = replicate 32 2, SendNonce = 0, RecvNonce =
    5,
       sendCipher = replicate 32 1, recvCipher = replicate 32 2\<rparr>"
  have short: "length [1, 2, 3 :: byte] < 24" by simp
  have long: "24 \<le> length (replicate 30 (0 :: byte))" by simp
  from Decrypt_bounds_safe [of "[1, 2, 3]" ?aopen ?s] short
  have 1: "Decrypt ?aopen ?s [1, 2, 3] = (Inl CiphertextTooShort, ?s)"
    by blast
  from Decrypt_bounds_safe [of "replicate 30 0" ?aopen ?s] long
  have 2: "\<exists>nonce rest. slice (replicate 30 0) 0 24 = Some nonce
         \<and> slice (replicate 30 0) 24 (length (replicate 30 (0 :: byte))) = Some rest
         \<and> length nonce = 24 \<and> nonce @ rest = replicate 30 0"
    by blast
  from 1 2 show ?thesis by (rule conjI)
qed

section \<open>The handshake: keys from two different salts\<close>

lemma GenerateRandomBytes_ok:
  "n \<le> length rng \<Longrightarrow> GenerateRandomBytes rng n = (Inr (take n rng), drop n rng)"
  by (simp add: GenerateRandomBytes_def ReadFull_def)

lemma session_keys_info_ints:
  "map uint session_keys_info = [104, 121, 100, 114, 97, 118, 112, 110, 45, 115, 101, 115, 115,
    105, 111, 110, 45, 107, 101, 121, 115]"
  by (simp add: session_keys_info_def)

lemma extract_zero_salt: "hkdf_extract (replicate 32 0) (replicate 32 7) = [107, 30, 210, 198,
  149, 45, 192, 62, 52, 235, 154, 133, 97, 214, 108, 77, 6, 30, 95, 235, 117, 156, 230, 62, 39,
  153, 193, 182, 74, 185, 23, 173]"
  unfolding hkdf_extract_def by code_simp

lemma expand_zero_salt:
  "hmac256 [107, 30, 210, 198, 149, 45, 192, 62, 52, 235, 154, 133, 97, 214, 108, 77, 6, 30, 95,
    235, 117, 156, 230, 62, 39, 153, 193, 182, 74, 185, 23, 173] [104, 121, 100, 114, 97, 118,
    112, 110, 45, 115, 101, 115, 115, 105, 111, 110, 45, 107, 101, 121, 115, 1] = [189, 178, 243,
    69, 239, 191, 157, 158, 100, 53, 181, 183, 149, 242, 134, 187, 173, 95, 16, 178, 212, 91, 205,
    83, 61, 11, 241, 160, 9, 209, 170, 201]"
  by code_simp

lemma extract_nines_salt: "hkdf_extract (replicate 32 9) (replicate 32 7) = [22, 205, 11, 153,
  142, 138, 152, 74, 209, 253, 63, 140, 147, 252, 161, 84, 82, 134, 229, 181, 92, 148, 192, 127,
  151, 204, 5, 163, 117, 20, 129, 211]"
  unfolding hkdf_extract_def by code_simp

lemma expand_nines_salt:
  "hmac256 [22, 205, 11, 153, 142, 138, 152, 74, 209, 253, 63, 140, 147, 252, 161, 84, 82, 134,
    229, 181, 92, 148, 192, 127, 151, 204, 5, 163, 117, 20, 129, 211] [104, 121, 100, 114, 97,
    118, 112, 110, 45, 115, 101, 115, 115, 105, 111, 110, 45, 107, 101, 121, 115, 1] = [127, 45,
    59, 175, 65, 77, 116, 131, 81, 204, 62, 83, 187, 245, 213, 150, 148, 163, 93, 151, 41, 61,
    123, 21, 194, 101, 35, 252, 67, 206, 241, 3]"
  by code_simp

lemma take_64_eq_iff:
  assumes "64 \<le> length xs" and "64 \<le> length ys"
  shows "take 64 xs = take 64 (ys :: 'a list)
    \<longleftrightarrow> take 32 xs = take 32 ys \<and> take 32 (drop 32 xs) = take 32 (drop 32
      ys)"
proof -
  have x: "take 64 xs = take 32 xs @ take 32 (drop 32 xs)"
    using take_add [of 32 32 xs] by simp
  have y: "take 64 ys = take 32 ys @ take 32 (drop 32 ys)"
    using take_add [of 32 32 ys] by simp
  have "length (take 32 xs) = length (take 32 ys)"
    using assms by simp
  then have "take 32 xs @ take 32 (drop 32 xs) = take 32 ys @ take 32 (drop 32 ys)
    \<longleftrightarrow> take 32 xs = take 32 ys \<and> take 32 (drop 32 xs) = take 32 (drop 32
      ys)"
    by (intro append_eq_append_conv disjI1)
  then show ?thesis
    unfolding x y .
qed

text \<open>
  Claim C1 fails on the code. Over the same shared secret, the client derives its keys
  from the HKDF stream under a salt of 32 zero bytes and the server derives its keys from
  the stream under the 32 bytes it has just drawn at random: the client's send key is the
  first key of the first stream, the server's receive key the first key of the second
  stream, and likewise for the other direction. The two sides hold matching keys exactly
  when the two streams agree on their first 64 bytes.
\<close>

theorem handshake_keys_from_different_salts:
  assumes "32 \<le> length rng"
    and "64 \<le> length (hkdf ss (make_bytes 32) session_keys_info)"
    and "64 \<le> length (hkdf ss (take 32 rng) session_keys_info)"
  shows "\<exists>c s. performHandshake_keys hkdf ss = Inr c \<and> handleConnection_keys hkdf rng
    ss = Inr s
    \<and> SendKey c = take 32 (hkdf ss (make_bytes 32) session_keys_info)
    \<and> RecvKey s = take 32 (hkdf ss (take 32 rng) session_keys_info)
    \<and> RecvKey c = take 32 (drop 32 (hkdf ss (make_bytes 32) session_keys_info))
    \<and> SendKey s = take 32 (drop 32 (hkdf ss (take 32 rng) session_keys_info))
    \<and> (SendKey c = RecvKey s \<and> RecvKey c = SendKey s
        \<longleftrightarrow> take 64 (hkdf ss (make_bytes 32) session_keys_info)
            = take 64 (hkdf ss (take 32 rng) session_keys_info))"
  using assms
  by (simp add: performHandshake_keys_def handleConnection_keys_def GenerateRandomBytes_ok
      DeriveSessionKeys_ok Let_def take_64_eq_iff)

text \<open>
  The theorem with HKDF-SHA256, the shared secret of 32 bytes \<open>7\<close> and a server whose
  random source delivers 32 bytes \<open>9\<close>: both derivations succeed, and the client's send
  key differs from the server's receive key.
\<close>

theorem handshake_keys_from_different_salts_witness:
  "\<exists>c s. performHandshake_keys HKDF_SHA256 (replicate 32 7) = Inr c
     \<and> handleConnection_keys HKDF_SHA256 (replicate 32 9) (replicate 32 7) = Inr s
     \<and> SendKey c = [189, 178, 243, 69, 239, 191, 157, 158, 100, 53, 181, 183, 149, 242, 134,
       187, 173, 95, 16, 178, 212, 91, 205, 83, 61, 11, 241, 160, 9, 209, 170, 201]
     \<and> RecvKey s = [127, 45, 59, 175, 65, 77, 116, 131, 81, 204, 62, 83, 187, 245, 213, 150,
       148, 163, 93, 151, 41, 61, 123, 21, 194, 101, 35, 252, 67, 206, 241, 3]
     \<and> SendKey c \<noteq> RecvKey s"
proof -
  let ?ss = "replicate 32 7 :: byte list" and ?rng = "replicate 32 9 :: byte list"
  have rng: "32 \<le> length ?rng"
    by simp
  have len: "64 \<le> length (HKDF_SHA256 ?ss (make_bytes 32) session_keys_info)"
    "64 \<le> length (HKDF_SHA256 ?ss (take 32 ?rng) session_keys_info)"
    by (simp_all add: length_HKDF_SHA256)
  from handshake_keys_from_different_salts [of ?rng HKDF_SHA256 ?ss, OF rng len]
  obtain c s where c: "performHandshake_keys HKDF_SHA256 ?ss = Inr c"
    and s: "handleConnection_keys HKDF_SHA256 ?rng ?ss = Inr s"
    and kc: "SendKey c = take 32 (HKDF_SHA256 ?ss (make_bytes 32) session_keys_info)"
    and ks: "RecvKey s = take 32 (HKDF_SHA256 ?ss (take 32 ?rng) session_keys_info)"
    by blast
  have kc': "SendKey c = [189, 178, 243, 69, 239, 191, 157, 158, 100, 53, 181, 183, 149, 242, 134,
    187, 173, 95, 16, 178, 212, 91, 205, 83, 61, 11, 241, 160, 9, 209, 170, 201]"
    unfolding kc take_32_HKDF_SHA256 session_keys_info_ints
    by (simp add: make_bytes_def extract_zero_salt expand_zero_salt)
  have ks': "RecvKey s = [127, 45, 59, 175, 65, 77, 116, 131, 81, 204, 62, 83, 187, 245, 213, 150,
    148, 163, 93, 151, 41, 61, 123, 21, 194, 101, 35, 252, 67, 206, 241, 3]"
    unfolding ks take_32_HKDF_SHA256 session_keys_info_ints
    by (simp add: extract_nines_salt expand_nines_salt)
  have "SendKey c \<noteq> RecvKey s"
    unfolding kc' ks' by simp
  with c s kc' ks' show ?thesis
    by blast
qed

section \<open>The data loop on a packet that fails to decrypt\<close>

text \<open>
  Claim C6, as the code has it. When a received frame parses as a Data packet and
  \<open>Decrypt\<close> fails on its payload, the iteration continues the loop, writes nothing to the
  tunnel or to the connection and leaves the crypto session, with both counters, as it
  was; the one change is \<open>LastSeen\<close>, which is set to the time of receipt, as it is for
  every frame that parses.
\<close>

theorem data_loop_decrypt_failure:
  assumes "UnmarshalPacket data = Inr packet"
    and "Type (Header packet) = PacketTypeData"
    and "fst (Decrypt aopen (CryptoSession (session st)) (Payload packet)) = Inl e"
  shows "data_loop_iteration aopen False hasTun now (ReadOk data) st
    = (Continue, st\<lparr>session := (session st)\<lparr>LastSeen := now\<rparr>\<rparr>)"
proof -
  obtain r cs where d: "Decrypt aopen (CryptoSession (session st)) (Payload packet) = (r, cs)"
    by (cases "Decrypt aopen (CryptoSession (session st)) (Payload packet)")
  with assms(3) have r: "r = Inl e" by simp
  have "snd (Decrypt aopen (CryptoSession (session st)) (Payload packet))
      = CryptoSession (session st)"
    using assms(3) by (rule Decrypt_error_keeps_session)
  with d have cs: "cs = CryptoSession (session st)" by simp
  show ?thesis
    using assms(1,2) d r cs by (simp add: data_loop_iteration_def Let_def)
qed

lemma Unmarshal_NewPacket:
  "length payload < 65536 \<Longrightarrow>
   UnmarshalPacket (Marshal (NewPacket t sid payload)) = Inr (NewPacket t sid payload)"
  by (rule Unmarshal_Marshal) (simp_all add: NewPacket_def unat_of_nat)

text \<open>
  Claim C6 as stated says that \<open>LastSeen\<close> is unchanged. It is not: an empty Data packet,
  which \<open>Decrypt\<close> rejects as too short, received at time 200 by a session last seen at
  100, leaves \<open>LastSeen\<close> at 200.
\<close>

theorem data_loop_last_seen_counterexample:
  "\<not> (\<forall>aopen hasTun now data packet st.
        UnmarshalPacket data = Inr packet \<and> Type (Header packet) = PacketTypeData
        \<and> (\<exists>e. fst (Decrypt aopen (CryptoSession (session st)) (Payload packet)) =
          Inl e)
      \<longrightarrow> LastSeen (session (snd (data_loop_iteration aopen False hasTun now (ReadOk
        data) st)))
          = LastSeen (session st))"
proof
  assume a: "\<forall>aopen hasTun now data packet st.
        UnmarshalPacket data = Inr packet \<and> Type (Header packet) = PacketTypeData
        \<and> (\<exists>e. fst (Decrypt aopen (CryptoSession (session st)) (Payload packet)) =
          Inl e)
      \<longrightarrow> LastSeen (session (snd (data_loop_iteration aopen False hasTun now (ReadOk
        data) st)))
          = LastSeen (session st)"
  let ?aopen = "\<lambda>c nonce ciphertext :: byte list. None :: byte list option"
  let ?p = "NewPacket PacketTypeData 1 []"
  let ?st = "\<lparr>session = \<lparr>ID = 1,
              CryptoSession = \<lparr>SendKey = replicate 32 1, RecvKey = replicate 32 2,
                               SendNonce = 0, RecvNonce = 0,
                               sendCipher = replicate 32 1, recvCipher = replicate 32 2\<rparr>,
              AssignedIP = [10, 8, 0, 2], LastSeen = 100\<rparr>,
           tun_written = [], conn_written = []\<rparr>"
  have u: "UnmarshalPacket (Marshal ?p) = Inr ?p"
    by (rule Unmarshal_NewPacket) simp
  have t: "Type (Header ?p) = PacketTypeData"
    by (simp add: NewPacket_def)
  have d: "fst (Decrypt ?aopen (CryptoSession (session ?st)) (Payload ?p)) = Inl CiphertextTooShort"
    by (simp add: Decrypt_def NewPacket_def)
  from a u t d
  have "LastSeen (session (snd (data_loop_iteration ?aopen False True 200 (ReadOk (Marshal ?p))
    ?st)))
      = LastSeen (session ?st)"
    by blast
  moreover have "LastSeen (session (snd (data_loop_iteration ?aopen False True 200 (ReadOk
    (Marshal ?p)) ?st))) = 200"
    using u t d by (simp add: data_loop_iteration_def Let_def Decrypt_def NewPacket_def)
  ultimately show False by simp
qed

text \<open>
  The theorem at a Data packet of 40 zero bytes whose authentication fails, received at
  time 200.
\<close>

theorem data_loop_decrypt_failure_witness:
  "data_loop_iteration (\<lambda>c nonce ciphertext. None) False True 200
      (ReadOk (Marshal (NewPacket PacketTypeData 1 (replicate 40 0))))
      \<lparr>session = \<lparr>ID = 1,
              CryptoSession = \<lparr>SendKey = replicate 32 1, RecvKey = replicate 32 2,
                               SendNonce = 0, RecvNonce = 0,
                               sendCipher = replicate 32 1, recvCipher = replicate 32 2\<rparr>,
              AssignedIP = [10, 8, 0, 2], LastSeen = 100\<rparr>,
           tun_written = [], conn_written = []\<rparr>
   = (Continue,
      \<lparr>session = \<lparr>ID = 1,
              CryptoSession = \<lparr>SendKey = replicate 32 1, RecvKey = replicate 32 2,
                               SendNonce = 0, RecvNonce = 0,
                               sendCipher = replicate 32 1, recvCipher = replicate 32 2\<rparr>,
              AssignedIP = [10, 8, 0, 2], LastSeen = 200\<rparr>,
           tun_written = [], conn_written = []\<rparr>)"
proof -
  let ?aopen = "\<lambda>c nonce ciphertext :: byte list. None :: byte list option"
  let ?p = "NewPacket PacketTypeData 1 (replicate 40 0)"
  let ?st = "\<lparr>session = \<lparr>ID = 1,
              CryptoSession = \<lparr>SendKey = replicate 32 1, RecvKey = replicate 32 2,
                               SendNonce = 0, RecvNonce = 0,
                               sendCipher = replicate 32 1, recvCipher = replicate 32 2\<rparr>,
              AssignedIP = [10, 8, 0, 2], LastSeen = 100\<rparr>,
           tun_written = [], conn_written = []\<rparr>"
  have u: "UnmarshalPacket (Marshal ?p) = Inr ?p"
    by (rule Unmarshal_NewPacket) simp
  have t: "Type (Header ?p) = PacketTypeData"
    by (simp add: NewPacket_def)
  have d: "fst (Decrypt ?aopen (CryptoSession (session ?st)) (Payload ?p)) = Inl OpenFailed"
    by (simp add: Decrypt_def NewPacket_def slice_def)
  show ?thesis
    using data_loop_decrypt_failure [OF u t d, of True 200] by simp
qed

section \<open>The obfuscated connection: the first message\<close>

text \<open>
  Claim C3 fails on the first message. With the key \<open>1, 2, \<dots>, 32\<close> and both positions at
  0, writing the one byte \<open>0x41\<close> puts \<open>1, 2, 3, 5, 0x44\<close> on the stream and leaves the
  writer at position 5; the reader decodes the length 1 with positions 0 to 3, then decodes
  the payload from position 0 again instead of 4, hands over \<open>0x45\<close> and ends at
  position 1.
\<close>

theorem obfuscated_first_message_corrupted:
  "Write \<lparr>key = map of_nat [1..<33], keyPos = 0\<rparr> [0x41]
     = (Inr 1, \<lparr>key = map of_nat [1..<33], keyPos = 5\<rparr>, [1, 2, 3, 5, 0x44])
   \<and> Read \<lparr>key = map of_nat [1..<33], keyPos = 0\<rparr> 4096 [1, 2, 3, 5, 0x44]
     = (Inr [0x45], \<lparr>key = map of_nat [1..<33], keyPos = 1\<rparr>, [])"
proof -
  have k: "map of_nat [1..<33] = ([1, 2, 3, 4, 5, 6, 7, 8, 9, 10, 11, 12, 13, 14, 15, 16, 17,
      18, 19, 20, 21, 22, 23, 24, 25, 26, 27, 28, 29, 30, 31, 32] :: byte list)"
    by (simp add: upt_conv_Cons)
  show ?thesis
    unfolding k
    by (simp add: Write_def Read_def ReadFull_def PutUint32_def Uint32_def copy_bytes_def
        make_bytes_def Let_def)
qed

section \<open>The address pool: addresses and their keys\<close>

lemma of_char_digit_char: "n < 10 \<Longrightarrow> of_char (digit_char n) = n + 48"
  by (simp add: digit_char_def)

lemma digit_char_inj: "m < 10 \<Longrightarrow> n < 10 \<Longrightarrow> digit_char m = digit_char
  n \<Longrightarrow> m = n"
  using of_char_digit_char [of m] of_char_digit_char [of n] by (metis add_right_cancel)

lemma ubtoa_unat_inj:
  assumes "ubtoa a = ubtoa b"
  shows "unat a = unat b"
proof -
  define dec :: "string \<Rightarrow> nat"
    where "dec = foldl (\<lambda>acc c. acc * 10 + (of_char c - 48)) 0"
  have dec: "dec (ubtoa v) = unat v" for v
  proof -
    let ?n = "unat v"
    have "?n < 2 ^ LENGTH(8)"
      by (rule unsigned_less)
    then have n: "?n < 256"
      by simp
    consider "?n < 10" | "10 \<le> ?n" "?n < 100" | "100 \<le> ?n"
      by linarith
    then show ?thesis
    proof cases
      case 1
      then show ?thesis
        by (simp add: dec_def ubtoa_def of_char_digit_char)
    next
      case 2
      then have "?n div 10 < 10" "?n mod 10 < 10"
        by simp_all
      with 2 show ?thesis
        by (simp add: dec_def ubtoa_def Let_def of_char_digit_char)
    next
      case 3
      with n have "?n div 100 < 10" "?n div 10 mod 10 < 10" "?n mod 10 < 10"
        by simp_all
      moreover have "(?n div 100 * 10 + ?n div 10 mod 10) * 10 + ?n mod 10 = ?n"
      proof -
        have "?n div 100 = ?n div 10 div 10"
          by (simp add: div_mult2_eq [symmetric])
        then have "?n div 100 * 10 + ?n div 10 mod 10 = ?n div 10"
          by simp
        then show ?thesis
          by simp
      qed
      ultimately show ?thesis
        using 3 by (simp add: dec_def ubtoa_def Let_def of_char_digit_char)
    qed
  qed
  from assms have "dec (ubtoa a) = dec (ubtoa b)"
    by simp
  then show ?thesis
    by (simp only: dec)
qed

lemma ubtoa_inj: "ubtoa a = ubtoa b \<Longrightarrow> a = b"
  using ubtoa_unat_inj [of a b] word_unat_eq_iff [of a b] by blast

lemma ip_String_quad:
  "ip_String [a, b, c, d] = ubtoa a @ ''.'' @ ubtoa b @ ''.'' @ ubtoa c @ ''.'' @ ubtoa d"
  by (simp add: ip_String_def To4_def)

lemma ip_String_last_inj: "ip_String [a, b, c, d] = ip_String [a, b, c, d'] \<Longrightarrow> d =
  d'"
  by (simp add: ip_String_quad ubtoa_inj)

lemma Uint32_base: "Uint32 [10, 8, 0, 0] = 0x0A080000"
  by (simp add: Uint32_def)

lemma PutUint32_host:
  assumes "unat h < 256"
  shows "PutUint32 (0x0A080000 + h) = [10, 8, 0, ucast h]"
proof -
  let ?w = "0x0A080000 + h :: 32 word" and ?x = "unat h"
  have u: "unat ?w = 168296448 + ?x"
    using assms by (simp add: unat_word_ariths)
  have d: "unat (ucast (drop_bit n ?w) :: byte) = (168296448 + ?x) div 2 ^ n mod 256" for n
    unfolding unsigned_ucast_eq unat_drop_bit_eq u
    unfolding drop_bit_eq_div take_bit_eq_mod by simp
  have "(?x + 10 * 16777216) div 16777216 = 10 + ?x div 16777216"
    by (rule div_mult_self1) simp
  with assms have "unat (ucast (drop_bit 24 ?w) :: byte) = 10"
    unfolding d by (simp add: add.commute)
  then have 1: "(ucast (drop_bit 24 ?w) :: byte) = 10"
    by (simp add: word_unat_eq_iff)
  have "(?x + 2568 * 65536) div 65536 = 2568 + ?x div 65536"
    by (rule div_mult_self1) simp
  with assms have "unat (ucast (drop_bit 16 ?w) :: byte) = 8"
    unfolding d by (simp add: add.commute)
  then have 2: "(ucast (drop_bit 16 ?w) :: byte) = 8"
    by (simp add: word_unat_eq_iff)
  have "(?x + 657408 * 256) div 256 = 657408 + ?x div 256"
    by (rule div_mult_self1) simp
  with assms have "unat (ucast (drop_bit 8 ?w) :: byte) = 0"
    unfolding d by (simp add: add.commute)
  then have 3: "(ucast (drop_bit 8 ?w) :: byte) = 0"
    by (simp add: word_unat_eq_iff)
  have "(?x + 657408 * 256) mod 256 = ?x mod 256"
    by (rule mod_mult_self1)
  then have "unat (ucast (drop_bit 0 ?w) :: byte) = unat (ucast h :: byte)"
    unfolding d by (simp add: unsigned_ucast_eq take_bit_eq_mod add.commute)
  then have 4: "(ucast ?w :: byte) = ucast h"
    by (simp add: word_unat_eq_iff)
  show ?thesis
    unfolding PutUint32_def using 1 2 3 4 by simp
qed

section \<open>The address pool: the scan of \<open>Allocate\<close>\<close>

lemma server_maxHosts: "push_bit (32 - 24) (1 :: 32 word) = 256"
  by simp

lemma unat_of_nat32: "n < 4294967296 \<Longrightarrow> unat (of_nat n :: 32 word) = n"
  by (simp add: unat_of_nat)

lemma hostNum_unat:
  assumes "unat nh + i < 4294967296"
  shows "unat ((nh + of_nat i) mod (255 :: 32 word)) = (unat nh + i) mod 255"
proof -
  have "i < 4294967296" using assms by simp
  then have "unat (nh + of_nat i :: 32 word) = unat nh + i"
    using assms by (simp add: unat_word_ariths unat_of_nat32)
  then show ?thesis
    by (simp add: unat_mod_distrib)
qed

lemma ucast_of_nat_byte: "(ucast (of_nat n :: 32 word) :: byte) = of_nat n"
proof -
  have "(256 :: nat) dvd 4294967296"
    by simp
  then have "n mod 4294967296 mod 256 = n mod 256"
    by (rule mod_mod_cancel)
  then show ?thesis
    by (simp add: word_unat_eq_iff unsigned_ucast_eq unat_of_nat take_bit_eq_mod)
qed

lemma alloc_scan_step:
  assumes base: "baseIP p = [10, 8, 0, 0]" and i: "i < 254" and nh: "unat (nextHost p) \<le> 255"
  shows "alloc_scan p 256 i =
    (let h = clamp_host ((unat (nextHost p) + i) mod 255) in
     if \<not> is_used (used p) (host_key h)
     then (Inr [10, 8, 0, of_nat h],
           p\<lparr>used := (used p)(host_key h \<mapsto> True), nextHost := of_nat (h + 1)\<rparr>)
     else alloc_scan p 256 (i + 1))"
proof -
  let ?m = "(unat (nextHost p) + i) mod 255"
  let ?hn = "(nextHost p + of_nat i) mod (255 :: 32 word)"
  let ?h = "if ?hn < 2 then 2 else ?hn"
  have um: "unat ?hn = ?m"
    using i nh by (intro hostNum_unat) simp
  have lt: "?hn < 2 \<longleftrightarrow> ?m < 2"
    by (simp add: word_less_nat_alt um)
  have m255: "?m < 255" by simp
  have "of_nat (unat ?hn) = ?hn"
    by simp
  then have hn: "?hn = of_nat ?m"
    unfolding um by simp
  have h: "?h = of_nat (clamp_host ?m)"
    using lt hn by (simp add: clamp_host_def)
  have c: "clamp_host ?m < 255" "2 \<le> clamp_host ?m"
    using m255 by (simp_all add: clamp_host_def)
  have uh: "unat (of_nat (clamp_host ?m) :: 32 word) = clamp_host ?m"
    using c by (simp add: unat_of_nat32)
  have ip: "PutUint32 (Uint32 [10, 8, 0, 0] + ?h) = [10, 8, 0, of_nat (clamp_host ?m)]"
    unfolding h Uint32_base using c uh
    by (subst PutUint32_host) (simp_all add: ucast_of_nat_byte)
  have h1: "?h + 1 = of_nat (clamp_host ?m + 1)"
    unfolding h by simp
  show ?thesis
    apply (subst alloc_scan.simps)
    using i base ip h1
    apply (simp add: To4_def Let_def host_key_def del: alloc_scan.simps)
    done
qed

lemma host_key_inj:
  assumes "h < 256" "h' < 256" "host_key h = host_key h'"
  shows "h = h'"
proof -
  from assms(3) have "(of_nat h :: byte) = of_nat h'"
    unfolding host_key_def by (rule ip_String_last_inj)
  then have "unat (of_nat h :: byte) = unat (of_nat h' :: byte)"
    by simp
  with assms(1,2) show ?thesis
    by (simp add: unat_of_nat)
qed

lemma host_key_inj_on: "inj_on host_key {0..<256}"
  by (rule inj_onI) (auto dest: host_key_inj)

lemma alloc_scan_exhausted:
  assumes "baseIP p = [10, 8, 0, 0]" and "unat (nextHost p) \<le> 255"
    and "\<And>j. i \<le> j \<Longrightarrow> j < 254 \<Longrightarrow>
           is_used (used p) (host_key (clamp_host ((unat (nextHost p) + j) mod 255)))"
  shows "alloc_scan p 256 i = (Inl PoolExhausted, p)"
  using assms
proof (induction "254 - i" arbitrary: i)
  case 0
  then have "\<not> i < 254" by simp
  then show ?case
    by (subst alloc_scan.simps) simp
next
  case (Suc n)
  then have i: "i < 254" by simp
  have "alloc_scan p 256 (i + 1) = (Inl PoolExhausted, p)"
    using Suc.hyps(2) Suc.prems by (intro Suc.hyps(1)) simp_all
  moreover have "is_used (used p) (host_key (clamp_host ((unat (nextHost p) + i) mod 255)))"
    using i by (intro Suc.prems(3)) simp_all
  ultimately show ?case
    using alloc_scan_step [OF Suc.prems(1) i Suc.prems(2)] by (simp add: Let_def)
qed

lemma Allocate_server:
  "subnet p = server_subnet \<Longrightarrow> Allocate p = alloc_scan p 256 0"
  by (simp add: Allocate_def server_subnet_def)

lemma NewIPPool_pool_after: "NewIPPool server_subnet = pool_after 0"
  by (simp add: NewIPPool_def pool_after_def server_subnet_def)

lemma pool_after_used: "is_used (used (pool_after k)) s \<longleftrightarrow> s \<in> host_key `
  {2..<2 + k}"
  by (simp add: pool_after_def is_used_def)

lemma Allocate_pool_after:
  assumes "k < 253"
  shows "Allocate (pool_after k) = (Inr [10, 8, 0, of_nat (2 + k)], pool_after (Suc k))"
proof -
  let ?p = "pool_after k"
  have base: "baseIP ?p = [10, 8, 0, 0]" and sub: "subnet ?p = server_subnet"
    by (simp_all add: pool_after_def)
  have nh: "unat (nextHost ?p) = 2 + k"
    using assms unat_of_nat32 [of "2 + k"] by (simp add: pool_after_def)
  have h: "clamp_host ((unat (nextHost ?p) + 0) mod 255) = 2 + k"
    using assms by (simp add: nh clamp_host_def)
  have free: "\<not> is_used (used ?p) (host_key (2 + k))"
  proof
    assume "is_used (used ?p) (host_key (2 + k))"
    then obtain h' where "h' \<in> {2..<2 + k}" "host_key (2 + k) = host_key h'"
      unfolding pool_after_used by blast
    with assms show False
      using host_key_inj [of "2 + k" h'] by simp
  qed
  have upd: "?p\<lparr>used := (used ?p)(host_key (2 + k) \<mapsto> True), nextHost := of_nat (2 +
    k + 1)\<rparr>
      = pool_after (Suc k)"
  proof -
    have "{2..<2 + Suc k} = insert (2 + k) {2..<2 + k}"
      by auto
    then show ?thesis
      by (auto simp add: pool_after_def fun_eq_iff)
  qed
  have "alloc_scan ?p 256 0 = (Inr [10, 8, 0, of_nat (2 + k)], pool_after (Suc k))"
    using alloc_scan_step [of ?p 0] base nh assms h free upd
    by (simp add: Let_def)
  then show ?thesis
    by (simp add: Allocate_server sub)
qed

lemma allocate_times_pool_after:
  "k + n \<le> 253 \<Longrightarrow>
   allocate_times n (pool_after k)
     = (map (\<lambda>h. Inr [10, 8, 0, of_nat h]) [2 + k..<2 + k + n], pool_after (k + n))"
proof (induction n arbitrary: k)
  case 0
  then show ?case by simp
next
  case (Suc n)
  then have k: "k < 253" and kn: "Suc k + n \<le> 253"
    by simp_all
  have "[2 + k..<2 + k + Suc n] = (2 + k) # [2 + Suc k..<2 + Suc k + n]"
    by (simp add: upt_conv_Cons)
  then show ?case
    using Allocate_pool_after [OF k] Suc.IH [OF kn] by simp
qed

section \<open>The address pool: exhaustion and release\<close>

lemma pool_after_full_fields:
  "baseIP (pool_after 253) = [10, 8, 0, 0]" "subnet (pool_after 253) = server_subnet"
  "unat (nextHost (pool_after 253)) = 255"
  by (simp_all add: pool_after_def)

lemma scan_from_255:
  assumes "j < 254"
  shows "clamp_host ((255 + j) mod 255) \<in> {2..<254}"
proof -
  have "(255 + j) mod 255 = j"
    using assms by simp
  with assms show ?thesis
    by (simp add: clamp_host_def)
qed

lemma Allocate_full: "Allocate (pool_after 253) = (Inl PoolExhausted, pool_after 253)"
proof -
  have "alloc_scan (pool_after 253) 256 0 = (Inl PoolExhausted, pool_after 253)"
  proof (rule alloc_scan_exhausted)
    fix j :: nat assume "j < 254"
    then have "clamp_host ((255 + j) mod 255) \<in> {2..<254}"
      by (rule scan_from_255)
    then have "host_key (clamp_host ((255 + j) mod 255)) \<in> host_key ` {2..<2 + 253}"
      by auto
    then show "is_used (used (pool_after 253))
        (host_key (clamp_host ((unat (nextHost (pool_after 253)) + j) mod 255)))"
      by (simp only: pool_after_used pool_after_full_fields)
  qed (simp_all add: pool_after_full_fields)
  then show ?thesis
    by (simp add: Allocate_server pool_after_full_fields)
qed

lemma Release_last:
  "Release (pool_after 253) [10, 8, 0, 254]
    = \<lparr>baseIP = [10, 8, 0, 0], subnet = server_subnet,
       used = (\<lambda>s. if s \<in> host_key ` {2..<254} then Some True else None),
       nextHost = 255\<rparr>"
proof -
  have k: "ip_String [10, 8, 0, 254] = host_key 254"
    by (simp add: host_key_def)
  have "host_key ` {2..<2 + 253} - {host_key 254} = host_key ` {2..<254}"
  proof -
    have "{2..<2 + 253} = insert 254 {2..<254::nat}"
      by auto
    moreover have "host_key 254 \<notin> host_key ` {2..<254}"
    proof
      assume "host_key 254 \<in> host_key ` {2..<254}"
      then obtain h where "h \<in> {2..<254}" "host_key 254 = host_key h"
        by blast
      then show False
        using host_key_inj [of 254 h] by simp
    qed
    ultimately show ?thesis
      by auto
  qed
  then have "\<And>s. s \<noteq> host_key 254 \<Longrightarrow> s \<in> host_key ` {2..<2 + 253}
    \<longleftrightarrow> s \<in> host_key ` {2..<254}"
    and "host_key 254 \<notin> host_key ` {2..<254}"
    by auto
  then show ?thesis
    unfolding Release_def k pool_after_def by (auto simp add: fun_eq_iff)
qed

lemma Allocate_after_Release_last:
  "Allocate (Release (pool_after 253) [10, 8, 0, 254])
    = (Inl PoolExhausted, Release (pool_after 253) [10, 8, 0, 254])"
proof -
  let ?p = "Release (pool_after 253) [10, 8, 0, 254]"
  have f: "baseIP ?p = [10, 8, 0, 0]" "subnet ?p = server_subnet" "unat (nextHost ?p) = 255"
    by (simp_all add: Release_last)
  have u: "is_used (used ?p) s \<longleftrightarrow> s \<in> host_key ` {2..<254}" for s
    by (simp add: Release_last is_used_def)
  have "alloc_scan ?p 256 0 = (Inl PoolExhausted, ?p)"
  proof (rule alloc_scan_exhausted)
    fix j :: nat assume "j < 254"
    then have "clamp_host ((255 + j) mod 255) \<in> {2..<254}"
      by (rule scan_from_255)
    then show "is_used (used ?p) (host_key (clamp_host ((unat (nextHost ?p) + j) mod 255)))"
      unfolding u f by (rule imageI)
  qed (simp_all add: f)
  then show ?thesis
    by (simp add: Allocate_server f)
qed

lemma used_after_Release_last:
  "card (dom (used (Release (pool_after 253) [10, 8, 0, 254]))) = 252"
  "\<not> is_used (used (Release (pool_after 253) [10, 8, 0, 254])) (ip_String [10, 8, 0, 254])"
proof -
  let ?p = "Release (pool_after 253) [10, 8, 0, 254]"
  have "dom (used ?p) = host_key ` {2..<254}"
    by (auto simp add: Release_last dom_def)
  moreover have "inj_on host_key {2..<254}"
    by (rule inj_on_subset [OF host_key_inj_on]) auto
  ultimately show "card (dom (used ?p)) = 252"
    by (simp add: card_image)
  show "\<not> is_used (used ?p) (ip_String [10, 8, 0, 254])"
    by (simp add: Release_def is_used_def)
qed

lemma allocate_times_stuck:
  "Allocate p = (Inl e, p) \<Longrightarrow> allocate_times n p = (replicate n (Inl e), p)"
  by (induction n) simp_all

text \<open>
  Claim C4 at the server's pool \<open>10.8.0.0/24\<close>. The first part holds: 253 consecutive
  calls of \<open>Allocate\<close> on a new pool return the host numbers 2 to 254 in order, and the
  next call fails. The rest does not: the scan of \<open>Allocate\<close> makes 254 steps over the 255
  residues of \<open>maxHosts - 1\<close> and never reaches the host number just below \<open>nextHost\<close>.
  After \<open>Release\<close> of \<open>10.8.0.254\<close>, the last address handed out, 252 addresses are in
  use and \<open>10.8.0.254\<close> is free, yet every further call of \<open>Allocate\<close> fails with
  \<open>PoolExhausted\<close> and leaves the pool as it is.
\<close>

theorem pool_last_address_not_reallocated:
  "(let (rs, p) = allocate_times 253 (NewIPPool server_subnet);
        p' = Release p [10, 8, 0, 254]
    in rs = map (\<lambda>h. Inr [10, 8, 0, of_nat h]) [2..<255]
       \<and> fst (Allocate p) = Inl PoolExhausted
       \<and> card (dom (used p')) = 252
       \<and> \<not> is_used (used p') (ip_String [10, 8, 0, 254])
       \<and> (\<forall>n. allocate_times n p' = (replicate n (Inl PoolExhausted), p')))"
proof -
  have "allocate_times 253 (NewIPPool server_subnet)
      = (map (\<lambda>h. Inr [10, 8, 0, of_nat h]) [2..<255], pool_after 253)"
    using allocate_times_pool_after [of 0 253] by (simp add: NewIPPool_pool_after)
  then show ?thesis
    using Allocate_full used_after_Release_last
      allocate_times_stuck [OF Allocate_after_Release_last]
    by simp
qed

end
